theory Spec2Isabelle
  imports Main
begin

section \<open>PNG to ICNS converter (tools/png\_to\_icns.py)\<close>

text \<open>
  The script builds a multi-resolution icon container from one source image
  (\<open>create_icns\<close>) and lists the entries of an existing container
  (\<open>inspect_icns\<close>). The image library (PIL), the path library (pathlib), the temporary
  directory and the container library (icnsutil) are collaborators of the script; they are
  modelled at the boundary where the script calls them.
\<close>

subsection \<open>Data\<close>

text \<open>A byte is an 8-bit \<^typ>\<open>char\<close>; ASCII text is its own encoding.\<close>

type_synonym bytes = "char list"

text \<open>\<open>ICON_TYPES\<close>: (type key, size, description), in the order of the source.\<close>

definition ICON_TYPES :: "(string \<times> nat \<times> string) list" where
  "ICON_TYPES =
    [(''icp4'', 16, ''16x16''),
     (''icp5'', 32, ''32x32''),
     (''icp6'', 64, ''64x64''),
     (''ic07'', 128, ''128x128''),
     (''ic08'', 256, ''256x256''),
     (''ic09'', 512, ''512x512''),
     (''ic10'', 1024, ''1024x1024 (512@2x)'')]"

text \<open>The dictionary \<open>type_info\<close> of \<open>inspect_icns\<close>, in the order of the source.\<close>

definition type_info :: "(string \<times> string) list" where
  "type_info =
    [(''icp4'', ''16x16''),
     (''icp5'', ''32x32''),
     (''icp6'', ''64x64''),
     (''ic07'', ''128x128''),
     (''ic08'', ''256x256''),
     (''ic09'', ''512x512''),
     (''ic10'', ''1024x1024 (512@2x)''),
     (''ic11'', ''32x32 (16@2x)''),
     (''ic12'', ''64x64 (32@2x)''),
     (''ic13'', ''256x256 (128@2x)''),
     (''ic14'', ''512x512 (256@2x)'')]"

text \<open>\<open>type_info.get(key, 'unknown')\<close>: a dictionary lookup with a default.\<close>

definition type_info_get :: "string \<Rightarrow> string" where
  "type_info_get key = (case map_of type_info key of None \<Rightarrow> ''unknown'' | Some desc \<Rightarrow> desc)"

text \<open>The exceptions that can leave the two functions.\<close>

datatype exn =
  FileNotFoundError
  | ValueError
  | ImageError
  | ResampleError
  | OSError
  | StructError
  | MalformedHeader
  | TruncatedChunk
  | TrailingBytes

text \<open>
  A path after \<open>Path(...)\<close> has parsed it: the components before the last one, and the
  last component (\<open>Path.name\<close>, empty for a root or the current directory).
\<close>

record path =
  parent :: "string list"
  name :: string

text \<open>
  \<open>PurePath.suffix\<close>: the part of the name from its last dot on, when that dot is neither
  the first nor the last character of the name; otherwise empty.
\<close>

fun rfind :: "char \<Rightarrow> string \<Rightarrow> nat option" where
  "rfind c [] = None"
| "rfind c (x # xs) =
     (case rfind c xs of
        Some i \<Rightarrow> Some (Suc i)
      | None \<Rightarrow> if x = c then Some 0 else None)"

definition path_suffix :: "path \<Rightarrow> string" where
  "path_suffix p =
     (case rfind (CHR ''.'') (name p) of
        None \<Rightarrow> []
      | Some i \<Rightarrow> if 0 < i \<and> i < length (name p) - 1 then drop i (name p) else [])"

text \<open>\<open>PurePath.stem\<close>: the name without its suffix.\<close>

definition path_stem :: "path \<Rightarrow> string" where
  "path_stem p = take (length (name p) - length (path_suffix p)) (name p)"

text \<open>
  \<open>PurePath.with_suffix\<close>: rejects a suffix that holds a separator, that does not start
  with a dot or that is a lone dot, and a path with an empty name; otherwise the old
  suffix is cut off the name (nothing, when there is none) and the new one appended.
\<close>

definition with_suffix :: "path \<Rightarrow> string \<Rightarrow> exn + path" where
  "with_suffix p suffix =
     (if CHR ''/'' \<in> set suffix then Inl ValueError
      else if (suffix \<noteq> [] \<and> take 1 suffix \<noteq> ''.'') \<or> suffix = ''.'' then Inl ValueError
      else if name p = [] then Inl ValueError
      else
        let old_suffix = path_suffix p
        in if old_suffix = [] then Inr (p\<lparr>name := name p @ suffix\<rparr>)
           else Inr (p\<lparr>name := take (length (name p) - length old_suffix) (name p) @ suffix\<rparr>))"

text \<open>A PIL image: its mode, its size (width, height) and its samples.\<close>

record image =
  mode :: string
  size_img :: "nat \<times> nat"
  pixels :: bytes

text \<open>
  The image library, as far as the script calls it: \<open>Image.open\<close> on the bytes of a file,
  \<open>convert\<close>, \<open>resize\<close> (with the Lanczos filter) and \<open>save\<close> as PNG. Opening, resizing
  and saving may raise. \<open>writable\<close> tells whether a file can be written at a path.
\<close>

record env =
  image_open :: "bytes \<Rightarrow> exn + image"
  convert :: "image \<Rightarrow> string \<Rightarrow> image"
  resize :: "image \<Rightarrow> nat \<times> nat \<Rightarrow> exn + image"
  save_png :: "image \<Rightarrow> exn + bytes"
  writable :: "path \<Rightarrow> bool"

text \<open>
  What the script prints, one value per \<open>print\<close> call; the numbers are kept as numbers
  (the text formatting is not modelled).
\<close>

datatype msg =
  Loading path
  | SourceSize nat nat
  | Warning
  | Added string string
  | Created path
  | TotalSizes nat
  | FileSize nat
  | Inspecting path
  | Rule
  | Entry string string nat
  | TotalEntries nat

text \<open>
  The world the script runs in: the files at user paths, the temporary directories that
  exist (each a number, as \<open>mkdtemp\<close> names them apart), the files inside them (directory,
  file name), and the standard output.
\<close>

record world =
  files :: "path \<rightharpoonup> bytes"
  tmp_dirs :: "nat list"
  tmp_files :: "nat \<times> string \<rightharpoonup> bytes"
  stdout :: "msg list"

definition print :: "msg \<Rightarrow> world \<Rightarrow> world" where
  "print m st = st\<lparr>stdout := stdout st @ [m]\<rparr>"

text \<open>\<open>tempfile.mkdtemp\<close>: creates a directory that did not exist and returns it.\<close>

definition mkdtemp :: "world \<Rightarrow> nat \<times> world" where
  "mkdtemp st =
     (let d = Suc (fold max (tmp_dirs st) 0)
      in (d, st\<lparr>tmp_dirs := tmp_dirs st @ [d]\<rparr>))"

text \<open>\<open>shutil.rmtree\<close>: removes the directory and every file in it.\<close>

definition rmtree :: "nat \<Rightarrow> world \<Rightarrow> world" where
  "rmtree d st =
     st\<lparr>tmp_dirs := removeAll d (tmp_dirs st),
        tmp_files := (\<lambda>f. if fst f = d then None else tmp_files st f)\<rparr>"

text \<open>\<open>str(n)\<close> for a number: its decimal digits, for the name of a temporary file.\<close>

function str_nat :: "nat \<Rightarrow> string" where
  "str_nat n =
     (if n < 10 then [char_of (48 + n)]
      else str_nat (n div 10) @ [char_of (48 + n mod 10)])"
  by pat_completeness auto
termination
  by (relation "measure id") auto

declare str_nat.simps [simp del]

subsection \<open>The container library\<close>

text \<open>
  \<open>IcnsFile.media\<close> is a Python dictionary from type key to data; it keeps the order in
  which keys were first inserted. Assigning to a key that is present replaces its value in
  place, assigning to a new key appends.
\<close>

type_synonym media = "(string \<times> bytes) list"

fun dict_set :: "media \<Rightarrow> string \<Rightarrow> bytes \<Rightarrow> media" where
  "dict_set [] k v = [(k, v)]"
| "dict_set ((k', v') # m) k v = (if k' = k then (k, v) # m else (k', v') # dict_set m k v)"

text \<open>
  Modelled from the spec: \<open>add_media(key=..., file=...)\<close> of the container library, which
  is not part of the script. It appends a chunk: the bytes of the file are stored under
  the type key.
\<close>

definition add_media :: "media \<Rightarrow> string \<Rightarrow> nat \<times> string \<Rightarrow> world \<Rightarrow> exn + media" where
  "add_media icns key file st =
     (case tmp_files st file of
        None \<Rightarrow> Inl FileNotFoundError
      | Some data \<Rightarrow> Inr (dict_set icns key data))"

text \<open>
  Modelled from the spec: the fixed-size length field of the container format, a big-endian
  unsigned integer in four bytes, and the value of such a field.
\<close>

definition be32 :: "nat \<Rightarrow> bytes" where
  "be32 n = [char_of (n div 16777216), char_of (n div 65536), char_of (n div 256), char_of n]"

definition be32_val :: "bytes \<Rightarrow> nat" where
  "be32_val bs = foldl (\<lambda>a b. a * 256 + of_char b) 0 bs"

text \<open>
  Modelled from the spec: the serialiser of the container library (\<open>IcnsFile.write\<close>),
  which is not part of the script. One chunk is the 4-character type tag, the length of
  the payload in a fixed-size big-endian field (four bytes, the width of the format's
  total-length field) and the payload.
\<close>

definition chunk_bytes :: "string \<times> bytes \<Rightarrow> bytes" where
  "chunk_bytes c = fst c @ be32 (length (snd c)) @ snd c"

text \<open>
  Modelled from the spec: the container is a header (the magic tag \<open>icns\<close> and the total
  byte length) followed by the chunks in order; the declared total is the header size
  plus, for each chunk, tag size, length-field size and payload length. A tag that is not
  four characters long or a total that does not fit the length field cannot be written.
\<close>

definition icns_write :: "media \<Rightarrow> exn + bytes" where
  "icns_write m =
     (let body = concat (map chunk_bytes m); total = 8 + length body
      in if list_all (\<lambda>c. length (fst c) = 4) m \<and> total < 4294967296
         then Inr (''icns'' @ be32 total @ body)
         else Inl StructError)"

text \<open>
  Modelled from the spec: the chunk loop of the decoder of the container library, from
  the number of bytes between the read cursor and the declared total (\<open>left\<close>) and the
  bytes of the buffer after the cursor. The loop ends normally when the cursor is at the
  declared total exactly. Each round reads a tag, a length and exactly that many payload
  bytes: \<open>TruncatedChunk\<close> when fewer than that many bytes remain in the buffer;
  \<open>TrailingBytes\<close> when the loop stops with the cursor short of the declared total (no
  tag and length left to read) or past it (the chunk ends beyond the declared total).
\<close>

function read_chunks :: "nat \<Rightarrow> bytes \<Rightarrow> exn + (string \<times> bytes) list" where
  "read_chunks left bs =
     (if left = 0 then Inr []
      else if length bs < 8 then Inl TrailingBytes
      else
        let type_id = take 4 bs;
            len = be32_val (take 4 (drop 4 bs));
            rest = drop 8 bs
        in if length rest < len then Inl TruncatedChunk
           else if left < 8 + len then Inl TrailingBytes
           else (case read_chunks (left - (8 + len)) (drop len rest) of
                   Inl e \<Rightarrow> Inl e
                 | Inr cs \<Rightarrow> Inr ((type_id, take len rest) # cs)))"
  by pat_completeness auto
termination
  by (relation "measure (\<lambda>(left, bs). left)") auto

declare read_chunks.simps [simp del]

text \<open>
  Modelled from the spec: the decoder of the container library. It reads the header and
  fails with \<open>MalformedHeader\<close> if the buffer is shorter than a header, if the magic tag
  does not match, or if the declared length is inconsistent with the length of the buffer:
  smaller than the header itself, or smaller than the buffer. A buffer that ends before
  the declared total passes the header check, and the chunk loop, which starts at the
  offset after the header, reports where it is cut.
\<close>

definition decode :: "bytes \<Rightarrow> exn + (string \<times> bytes) list" where
  "decode bs =
     (if length bs < 8 \<or> take 4 bs \<noteq> ''icns'' then Inl MalformedHeader
      else
        let declared = be32_val (take 4 (drop 4 bs))
        in if declared < 8 \<or> declared < length bs then Inl MalformedHeader
           else read_chunks (declared - 8) (drop 8 bs))"

text \<open>
  Modelled from the spec: \<open>IcnsFile(path)\<close> of the container library. The decoded chunks
  are stored one after the other in the dictionary \<open>media\<close>, so of two chunks with the
  same type key the later payload is kept.
\<close>

definition IcnsFile :: "bytes \<Rightarrow> exn + media" where
  "IcnsFile bs =
     (case decode bs of
        Inl e \<Rightarrow> Inl e
      | Inr cs \<Rightarrow> Inr (foldl (\<lambda>m c. dict_set m (fst c) (snd c)) [] cs))"

subsection \<open>\<open>create_icns\<close>\<close>

text \<open>
  The loop over \<open>ICON_TYPES\<close> (lines 77 to 89), from the entries still to visit, the
  container and \<open>sizes_added\<close> so far. An exception of the resampler, of the PNG writer or
  of \<open>add_media\<close> leaves the loop with the world as it is at that point.
\<close>

fun add_sizes ::
  "env \<Rightarrow> image \<Rightarrow> nat \<Rightarrow> (string \<times> nat \<times> string) list \<Rightarrow> media \<times> string list \<Rightarrow> world
    \<Rightarrow> (exn + media \<times> string list) \<times> world" where
  "add_sizes E source_img temp_dir [] acc st = (Inr acc, st)"
| "add_sizes E source_img temp_dir ((type_key, sz, desc) # rest) (icns, sizes_added) st =
     (if sz \<le> max (fst (size_img source_img)) (snd (size_img source_img)) then
        (case resize E source_img (sz, sz) of
           Inl e \<Rightarrow> (Inl e, st)
         | Inr resized \<Rightarrow>
             (case save_png E resized of
                Inl e \<Rightarrow> (Inl e, st)
              | Inr data \<Rightarrow>
                  let temp_png = (temp_dir, ''icon_'' @ str_nat sz @ ''x'' @ str_nat sz @ ''.png'');
                      st1 = st\<lparr>tmp_files := (tmp_files st)(temp_png \<mapsto> data)\<rparr>
                  in (case add_media icns type_key temp_png st1 of
                        Inl e \<Rightarrow> (Inl e, st1)
                      | Inr icns' \<Rightarrow>
                          add_sizes E source_img temp_dir rest (icns', sizes_added @ [desc])
                            (print (Added type_key desc) st1))))
      else add_sizes E source_img temp_dir rest (icns, sizes_added) st)"

text \<open>
  The body of the \<open>try\<close> block (lines 72 to 100): build the container, write it, report
  it, return the output path.
\<close>

definition try_body :: "env \<Rightarrow> image \<Rightarrow> path \<Rightarrow> nat \<Rightarrow> world \<Rightarrow> (exn + path) \<times> world" where
  "try_body E source_img output_path temp_dir st =
     (case add_sizes E source_img temp_dir ICON_TYPES ([], []) st of
        (Inl e, st1) \<Rightarrow> (Inl e, st1)
      | (Inr (icns, sizes_added), st1) \<Rightarrow>
          (case icns_write icns of
             Inl e \<Rightarrow> (Inl e, st1)
           | Inr data \<Rightarrow>
               if \<not> writable E output_path then (Inl OSError, st1)
               else
                 let st2 = st1\<lparr>files := (files st1)(output_path \<mapsto> data)\<rparr>;
                     st3 = print (Created output_path) st2;
                     st4 = print (TotalSizes (length sizes_added)) st3
                 in (case files st4 output_path of
                       None \<Rightarrow> (Inl FileNotFoundError, st4)
                     | Some written \<Rightarrow> (Inr output_path, print (FileSize (length written)) st4))))"

text \<open>
  Lines 68 to 104: the temporary directory, the \<open>try\<close> block and the \<open>finally\<close> clause,
  which runs on every way out of the block.
\<close>

definition build_icns :: "env \<Rightarrow> image \<Rightarrow> path \<Rightarrow> world \<Rightarrow> (exn + path) \<times> world" where
  "build_icns E source_img output_path st =
     (let (temp_dir, st1) = mkdtemp st;
          (r, st2) = try_body E source_img output_path temp_dir st1
      in (r, rmtree temp_dir st2))"

text \<open>\<open>create_icns(input_path, output_path=None)\<close>.\<close>

definition create_icns :: "env \<Rightarrow> path \<Rightarrow> path option \<Rightarrow> world \<Rightarrow> (exn + path) \<times> world" where
  "create_icns E input_path output_path st =
     (case files st input_path of
        None \<Rightarrow> (Inl FileNotFoundError, st)
      | Some content \<Rightarrow>
          (case (case output_path of
                   None \<Rightarrow> with_suffix input_path ''.icns''
                 | Some p \<Rightarrow> Inr p) of
             Inl e \<Rightarrow> (Inl e, st)
           | Inr out \<Rightarrow>
               let st1 = print (Loading input_path) st
               in (case image_open E content of
                     Inl e \<Rightarrow> (Inl e, st1)
                   | Inr img \<Rightarrow>
                       let source_img = (if mode img \<noteq> ''RGBA'' then convert E img ''RGBA'' else img);
                           original_size = size_img source_img;
                           st2 = print (SourceSize (fst original_size) (snd original_size)) st1;
                           st3 = (if fst original_size < 512 \<or> snd original_size < 512
                                  then print Warning st2 else st2)
                       in build_icns E source_img out st3)))"

subsection \<open>\<open>inspect_icns\<close>\<close>

text \<open>The loop over \<open>icns.media.items()\<close>: one line per entry.\<close>

fun print_entries :: "media \<Rightarrow> world \<Rightarrow> world" where
  "print_entries [] st = st"
| "print_entries ((key, data) # rest) st =
     print_entries rest (print (Entry key (type_info_get key) (length data)) st)"

definition inspect_icns :: "path \<Rightarrow> world \<Rightarrow> (exn + unit) \<times> world" where
  "inspect_icns icns_path st =
     (case files st icns_path of
        None \<Rightarrow> (Inl FileNotFoundError, st)
      | Some content \<Rightarrow>
          let st1 = print Rule (print (Inspecting icns_path) st)
          in (case IcnsFile content of
                Inl e \<Rightarrow> (Inl e, st1)
              | Inr icns \<Rightarrow>
                  (Inr (), print (TotalEntries (length icns)) (print Rule (print_entries icns st1)))))"

subsection \<open>Named parts of \<open>create_icns\<close>\<close>

text \<open>Lines 49 to 52: the output path, derived from the input path when none is given.\<close>

definition output_path_of :: "path \<Rightarrow> path option \<Rightarrow> exn + path" where
  "output_path_of input_path output_path =
     (case output_path of None \<Rightarrow> with_suffix input_path ''.icns'' | Some p \<Rightarrow> Inr p)"

text \<open>Lines 59 and 60: the source image in RGBA mode.\<close>

definition to_rgba :: "env \<Rightarrow> image \<Rightarrow> image" where
  "to_rgba E img = (if mode img \<noteq> ''RGBA'' then convert E img ''RGBA'' else img)"

text \<open>Lines 55 to 66: what is printed before the temporary directory is created.\<close>

definition announce :: "path \<Rightarrow> image \<Rightarrow> msg list" where
  "announce input_path source_img =
     [Loading input_path, SourceSize (fst (size_img source_img)) (snd (size_img source_img))] @
     (if fst (size_img source_img) < 512 \<or> snd (size_img source_img) < 512 then [Warning] else [])"

text \<open>Lines 80 to 84: the PNG bytes of the source resized to a square.\<close>

definition png_of :: "env \<Rightarrow> image \<Rightarrow> nat \<Rightarrow> exn + bytes" where
  "png_of E source_img sz =
     (case resize E source_img (sz, sz) of Inl e \<Rightarrow> Inl e | Inr resized \<Rightarrow> save_png E resized)"

text \<open>\<open>max(original_size)\<close>.\<close>

definition max_dim :: "image \<Rightarrow> nat" where
  "max_dim source_img = max (fst (size_img source_img)) (snd (size_img source_img))"

subsection \<open>The size table as the specification words it\<close>

text \<open>
  \<open>entriesUpTo(maxDimension)\<close>: every table entry whose dimension is at most
  \<open>maxDimension\<close>, in the order of the table.
\<close>

definition entries_up_to :: "nat \<Rightarrow> (string \<times> nat \<times> string) list" where
  "entries_up_to max_dimension = filter (\<lambda>entry. fst (snd entry) \<le> max_dimension) ICON_TYPES"

subsection \<open>Example collaborators\<close>

text \<open>
  An image library that opens every file as an RGB image of a given size, resizes by
  setting the size and saves the samples as they are; every path is writable.
\<close>

definition demo_env :: "nat \<Rightarrow> nat \<Rightarrow> env" where
  "demo_env w h =
     \<lparr>image_open = (\<lambda>content. Inr \<lparr>mode = ''RGB'', size_img = (w, h), pixels = content\<rparr>),
      convert = (\<lambda>img m. img\<lparr>mode := m\<rparr>),
      resize = (\<lambda>img wh. Inr (img\<lparr>size_img := wh\<rparr>)),
      save_png = (\<lambda>img. Inr (pixels img)),
      writable = (\<lambda>p. True)\<rparr>"

definition demo_input :: path where
  "demo_input = \<lparr>parent = [''assets''], name = ''logo.png''\<rparr>"

text \<open>A world with one file, no temporary directory and nothing printed.\<close>

definition demo_world :: world where
  "demo_world =
     \<lparr>files = [demo_input \<mapsto> ''px''], tmp_dirs = [], tmp_files = Map.empty, stdout = []\<rparr>"

text \<open>The same world with some lines printed before its output.\<close>

definition log_before :: "msg list \<Rightarrow> world \<Rightarrow> world" where
  "log_before l st = st\<lparr>stdout := l @ stdout st\<rparr>"

text \<open>The same image library with a resampler that always raises.\<close>

definition failing_env :: env where
  "failing_env = (demo_env 16 16)\<lparr>resize := (\<lambda>img wh. Inl ResampleError)\<rparr>"

section \<open>Properties\<close>

subsection \<open>Auxiliary facts\<close>

lemma dict_set_fresh: "k \<notin> fst ` set m \<Longrightarrow> dict_set m k v = m @ [(k, v)]"
  by (induction m) auto

lemma add_sizes_Inr:
  "add_sizes E img d ts (icns, sa) st = (Inr (icns', sa'), st') \<Longrightarrow>
   distinct (map fst ts) \<Longrightarrow> fst ` set icns \<inter> fst ` set ts = {} \<Longrightarrow>
   (\<exists>cs. icns' = icns @ cs \<and>
      list_all2 (\<lambda>c t. fst c = fst t \<and> png_of E img (fst (snd t)) = Inr (snd c))
        cs (filter (\<lambda>t. fst (snd t) \<le> max_dim img) ts)) \<and>
   sa' = sa @ map (\<lambda>t. snd (snd t)) (filter (\<lambda>t. fst (snd t) \<le> max_dim img) ts)"
proof (induction ts arbitrary: icns sa st)
  case Nil
  then show ?case by simp
next
  case (Cons t ts)
  obtain k sz desc where t: "t = (k, sz, desc)" by (cases t) auto
  show ?case
  proof (cases "sz \<le> max_dim img")
    case False
    with Cons.prems t have "add_sizes E img d ts (icns, sa) st = (Inr (icns', sa'), st')"
      by (simp add: max_dim_def)
    moreover from Cons.prems have "distinct (map fst ts)" "fst ` set icns \<inter> fst ` set ts = {}"
      by auto
    ultimately show ?thesis using Cons.IH False t by simp
  next
    case True
    from Cons.prems(1) t True obtain resized data where
      r: "resize E img (sz, sz) = Inr resized" and s: "save_png E resized = Inr data"
      by (auto simp: max_dim_def split: sum.splits)
    define f where "f = (d, ''icon_'' @ str_nat sz @ ''x'' @ str_nat sz @ ''.png'')"
    define st1 where "st1 = st\<lparr>tmp_files := (tmp_files st)(f \<mapsto> data)\<rparr>"
    have am: "add_media icns k f st1 = Inr (icns @ [(k, data)])"
      using Cons.prems(3) t by (simp add: add_media_def st1_def dict_set_fresh)
    have rec: "add_sizes E img d ts (icns @ [(k, data)], sa @ [desc]) (print (Added k desc) st1)
        = (Inr (icns', sa'), st')"
      using Cons.prems(1) t True r s am
      by (simp add: max_dim_def Let_def f_def st1_def)
    have d: "distinct (map fst ts)" using Cons.prems(2) by simp
    have dj: "fst ` set (icns @ [(k, data)]) \<inter> fst ` set ts = {}"
      using Cons.prems(2,3) t by auto
    from Cons.IH [OF rec d dj] obtain cs where
      cs: "icns' = (icns @ [(k, data)]) @ cs"
        "list_all2 (\<lambda>c t. fst c = fst t \<and> png_of E img (fst (snd t)) = Inr (snd c))
          cs (filter (\<lambda>t. fst (snd t) \<le> max_dim img) ts)"
      and sa: "sa' = (sa @ [desc]) @ map (\<lambda>t. snd (snd t)) (filter (\<lambda>t. fst (snd t) \<le> max_dim img) ts)"
      by blast
    have p: "png_of E img sz = Inr data" by (simp add: png_of_def r s)
    show ?thesis
    proof (intro conjI exI [of _ "(k, data) # cs"])
      show "icns' = icns @ (k, data) # cs" using cs(1) by simp
      show "list_all2 (\<lambda>c t. fst c = fst t \<and> png_of E img (fst (snd t)) = Inr (snd c))
        ((k, data) # cs) (filter (\<lambda>t. fst (snd t) \<le> max_dim img) (t # ts))"
        using cs(2) True t p by simp
      show "sa' = sa @ map (\<lambda>t. snd (snd t)) (filter (\<lambda>t. fst (snd t) \<le> max_dim img) (t # ts))"
        using sa True t by simp
    qed
  qed
qed

lemma fold_max_ge: "a \<le> fold max xs (a::nat)"
proof (induction xs arbitrary: a)
  case Nil
  show ?case by simp
next
  case (Cons x xs)
  have "a \<le> max x a" by simp
  also have "\<dots> \<le> fold max xs (max x a)" by (rule Cons.IH)
  finally show ?case by simp
qed

lemma fold_max_upper: "x \<in> set xs \<Longrightarrow> x \<le> fold max xs (a::nat)"
proof (induction xs arbitrary: a)
  case Nil
  then show ?case by simp
next
  case (Cons y ys)
  show ?case
  proof (cases "x = y")
    case True
    have "x \<le> max y a" using True by simp
    also have "\<dots> \<le> fold max ys (max y a)" by (rule fold_max_ge)
    finally show ?thesis by simp
  next
    case False
    with Cons.prems have "x \<in> set ys" by simp
    then show ?thesis using Cons.IH by simp
  qed
qed

lemma mkdtemp_fresh: "fst (mkdtemp st) \<notin> set (tmp_dirs st)"
proof
  assume "fst (mkdtemp st) \<in> set (tmp_dirs st)"
  then have "Suc (fold max (tmp_dirs st) 0) \<le> fold max (tmp_dirs st) 0"
    unfolding mkdtemp_def Let_def fst_conv by (rule fold_max_upper)
  then show False by simp
qed

lemma add_sizes_world:
  "add_sizes E img d ts acc st = (r, st') \<Longrightarrow>
   files st' = files st \<and> tmp_dirs st' = tmp_dirs st \<and>
   (\<forall>f. fst f \<noteq> d \<longrightarrow> tmp_files st' f = tmp_files st f) \<and>
   (\<exists>ms. stdout st' = stdout st @ ms \<and> Warning \<notin> set ms)"
proof (induction E img d ts acc st rule: add_sizes.induct)
  case (1 E source_img temp_dir acc st)
  then show ?case by simp
next
  case (2 E source_img temp_dir type_key sz desc rest icns sizes_added st)
  show ?case
  proof (cases "sz \<le> max (fst (size_img source_img)) (snd (size_img source_img))")
    case False
    with 2 show ?thesis by simp
  next
    case True
    show ?thesis
    proof (cases "resize E source_img (sz, sz)")
      case (Inl e)
      with 2(3) True show ?thesis by simp
    next
      case (Inr resized)
      note rs = Inr
      show ?thesis
      proof (cases "save_png E resized")
        case (Inl e)
        with 2(3) True rs show ?thesis by simp
      next
        case (Inr data)
        define f where "f = (temp_dir, ''icon_'' @ str_nat sz @ ''x'' @ str_nat sz @ ''.png'')"
        define st1 where "st1 = st\<lparr>tmp_files := (tmp_files st)(f \<mapsto> data)\<rparr>"
        have am: "add_media icns type_key f st1 = Inr (dict_set icns type_key data)"
          by (simp add: add_media_def st1_def)
        have rec: "add_sizes E source_img temp_dir rest (dict_set icns type_key data, sizes_added @ [desc])
            (print (Added type_key desc) st1) = (r, st')"
          using 2(3) True rs Inr am by (simp add: Let_def f_def st1_def)
        have IH: "files st' = files (print (Added type_key desc) st1) \<and>
          tmp_dirs st' = tmp_dirs (print (Added type_key desc) st1) \<and>
          (\<forall>g. fst g \<noteq> temp_dir \<longrightarrow> tmp_files st' g = tmp_files (print (Added type_key desc) st1) g) \<and>
          (\<exists>ms. stdout st' = stdout (print (Added type_key desc) st1) @ ms \<and> Warning \<notin> set ms)"
          using 2(1) [OF True rs Inr f_def st1_def am rec] .
        then obtain ms where ms: "stdout st' = stdout (print (Added type_key desc) st1) @ ms"
          "Warning \<notin> set ms" by blast
        have "stdout st' = stdout st @ (Added type_key desc # ms)"
          using ms(1) by (simp add: print_def st1_def)
        moreover have "Warning \<notin> set (Added type_key desc # ms)" using ms(2) by simp
        ultimately have out: "\<exists>ms. stdout st' = stdout st @ ms \<and> Warning \<notin> set ms" by blast
        have "\<forall>g. fst g \<noteq> temp_dir \<longrightarrow> tmp_files st' g = tmp_files st g"
          using IH by (simp add: print_def st1_def f_def)
        with IH out show ?thesis by (simp add: print_def st1_def)
      qed
    qed
  qed
qed

lemma try_body_world:
  assumes "try_body E img out d st = (r, st')"
  shows "tmp_dirs st' = tmp_dirs st \<and> (\<forall>f. fst f \<noteq> d \<longrightarrow> tmp_files st' f = tmp_files st f)"
proof -
  obtain r1 st1 where a: "add_sizes E img d ICON_TYPES ([], []) st = (r1, st1)"
    by (cases "add_sizes E img d ICON_TYPES ([], []) st") auto
  from add_sizes_world [OF a] have
    w: "tmp_dirs st1 = tmp_dirs st" "\<forall>f. fst f \<noteq> d \<longrightarrow> tmp_files st1 f = tmp_files st f"
    by auto
  have "tmp_dirs st' = tmp_dirs st1 \<and> tmp_files st' = tmp_files st1"
    using assms a
    by (auto simp: try_body_def print_def Let_def split: sum.splits if_splits option.splits)
  with w show ?thesis by simp
qed

lemma build_icns_tmp:
  assumes "build_icns E img out st = (r, st')"
  shows "tmp_dirs st' = tmp_dirs st \<and> dom (tmp_files st') \<subseteq> dom (tmp_files st)"
proof -
  define d where "d = fst (mkdtemp st)"
  define st1 where "st1 = snd (mkdtemp st)"
  obtain r2 st2 where t: "try_body E img out d st1 = (r2, st2)"
    by (cases "try_body E img out d st1") auto
  have st': "st' = rmtree d st2"
    using assms t by (simp add: build_icns_def d_def st1_def split_beta)
  have fresh: "d \<notin> set (tmp_dirs st)" unfolding d_def by (rule mkdtemp_fresh)
  have st1: "tmp_dirs st1 = tmp_dirs st @ [d]" "tmp_files st1 = tmp_files st"
    by (simp_all add: st1_def d_def mkdtemp_def Let_def)
  from try_body_world [OF t] have
    w: "tmp_dirs st2 = tmp_dirs st1" "\<forall>f. fst f \<noteq> d \<longrightarrow> tmp_files st2 f = tmp_files st1 f"
    by auto
  have "tmp_dirs st' = tmp_dirs st"
    using fresh by (simp add: st' rmtree_def w(1) st1(1))
  moreover have "dom (tmp_files st') \<subseteq> dom (tmp_files st)"
    using w(2) by (auto simp: st' rmtree_def st1(2) split: if_splits)
  ultimately show ?thesis by simp
qed

lemma create_icns_missing:
  "files st input_path = None \<Longrightarrow>
   create_icns E input_path output_path st = (Inl FileNotFoundError, st)"
  by (simp add: create_icns_def)

lemma create_icns_bad_path:
  "files st input_path = Some content \<Longrightarrow> output_path_of input_path output_path = Inl e \<Longrightarrow>
   create_icns E input_path output_path st = (Inl e, st)"
  by (simp add: create_icns_def output_path_of_def)

lemma create_icns_bad_image:
  "files st input_path = Some content \<Longrightarrow> output_path_of input_path output_path = Inr out \<Longrightarrow>
   image_open E content = Inl e \<Longrightarrow>
   create_icns E input_path output_path st = (Inl e, print (Loading input_path) st)"
  by (simp add: create_icns_def output_path_of_def)

lemma create_icns_loaded:
  "files st input_path = Some content \<Longrightarrow> output_path_of input_path output_path = Inr out \<Longrightarrow>
   image_open E content = Inr img \<Longrightarrow>
   create_icns E input_path output_path st =
     build_icns E (to_rgba E img) out
       (st\<lparr>stdout := stdout st @ announce input_path (to_rgba E img)\<rparr>)"
  by (simp add: create_icns_def output_path_of_def to_rgba_def announce_def print_def Let_def)

lemma add_sizes_run:
  assumes "\<And>t. t \<in> set ts \<Longrightarrow> fst (snd t) \<le> max_dim img \<Longrightarrow> png_of E img (fst (snd t)) = Inr (f (fst (snd t)))"
    and "distinct (map fst ts)" and "fst ` set icns \<inter> fst ` set ts = {}"
  shows "\<exists>st'. add_sizes E img d ts (icns, sa) st =
    (Inr (icns @ map (\<lambda>t. (fst t, f (fst (snd t)))) (filter (\<lambda>t. fst (snd t) \<le> max_dim img) ts),
          sa @ map (\<lambda>t. snd (snd t)) (filter (\<lambda>t. fst (snd t) \<le> max_dim img) ts)), st')"
  using assms
proof (induction ts arbitrary: icns sa st)
  case Nil
  show ?case by simp
next
  case (Cons t ts)
  obtain k sz desc where t: "t = (k, sz, desc)" by (cases t) auto
  have d: "distinct (map fst ts)" using Cons.prems(2) by simp
  have p: "\<And>u. u \<in> set ts \<Longrightarrow> fst (snd u) \<le> max_dim img \<Longrightarrow>
      png_of E img (fst (snd u)) = Inr (f (fst (snd u)))"
    using Cons.prems(1) by simp
  show ?case
  proof (cases "sz \<le> max_dim img")
    case False
    have dj: "fst ` set icns \<inter> fst ` set ts = {}" using Cons.prems(3) by auto
    from Cons.IH [OF p d dj, of sa st] show ?thesis
      using False t by (simp add: max_dim_def)
  next
    case True
    have "png_of E img sz = Inr (f sz)" using Cons.prems(1) [of t] True t by simp
    then obtain resized where
      r: "resize E img (sz, sz) = Inr resized" and s: "save_png E resized = Inr (f sz)"
      by (auto simp: png_of_def split: sum.splits)
    define g where "g = (d, ''icon_'' @ str_nat sz @ ''x'' @ str_nat sz @ ''.png'')"
    define st1 where "st1 = st\<lparr>tmp_files := (tmp_files st)(g \<mapsto> f sz)\<rparr>"
    have am: "add_media icns k g st1 = Inr (icns @ [(k, f sz)])"
      using Cons.prems(3) t by (simp add: add_media_def st1_def dict_set_fresh)
    have dj: "fst ` set (icns @ [(k, f sz)]) \<inter> fst ` set ts = {}"
      using Cons.prems(2,3) t by auto
    from Cons.IH [OF p d dj, of "sa @ [desc]" "print (Added k desc) st1"]
    obtain st' where rec: "add_sizes E img d ts (icns @ [(k, f sz)], sa @ [desc]) (print (Added k desc) st1) =
      (Inr ((icns @ [(k, f sz)]) @ map (\<lambda>t. (fst t, f (fst (snd t)))) (filter (\<lambda>t. fst (snd t) \<le> max_dim img) ts),
          (sa @ [desc]) @ map (\<lambda>t. snd (snd t)) (filter (\<lambda>t. fst (snd t) \<le> max_dim img) ts)), st')"
      by blast
    have "add_sizes E img d (t # ts) (icns, sa) st =
      add_sizes E img d ts (icns @ [(k, f sz)], sa @ [desc]) (print (Added k desc) st1)"
      using t True r s am by (simp add: max_dim_def Let_def g_def st1_def)
    with rec show ?thesis using True t by simp
  qed
qed

lemma ICON_TYPES_distinct: "distinct (map fst ICON_TYPES)"
  by (simp add: ICON_TYPES_def)

lemma ICON_TYPES_tags: "list_all (\<lambda>t. length (fst t) = 4) ICON_TYPES"
  by (simp add: ICON_TYPES_def)

lemma build_media:
  assumes "add_sizes E img d ICON_TYPES ([], []) st = (Inr (icns, sa), st')"
  shows "list_all2 (\<lambda>c t. fst c = fst t \<and> png_of E img (fst (snd t)) = Inr (snd c))
           icns (entries_up_to (max_dim img))"
    and "sa = map (\<lambda>t. snd (snd t)) (entries_up_to (max_dim img))"
  using add_sizes_Inr [OF assms ICON_TYPES_distinct] by (simp_all add: entries_up_to_def)

lemma build_media_keys:
  assumes "add_sizes E img d ICON_TYPES ([], []) st = (Inr (icns, sa), st')"
  shows "map fst icns = map fst (entries_up_to (max_dim img))"
proof -
  have "list_all2 (\<lambda>c t. fst c = fst t) icns (entries_up_to (max_dim img))"
    using build_media(1) [OF assms] by (rule list_all2_mono) simp
  then show ?thesis by (simp add: list_all2_conv_all_nth list_eq_iff_nth_eq)
qed

lemma try_body_Inr:
  assumes "try_body E img out d st = (Inr p, st')"
  shows "p = out \<and> writable E out \<and>
    (\<exists>icns sa s1 data. add_sizes E img d ICON_TYPES ([], []) st = (Inr (icns, sa), s1) \<and>
       icns_write icns = Inr data \<and> files st' = (files st)(out \<mapsto> data))"
proof -
  obtain r1 s1 where a: "add_sizes E img d ICON_TYPES ([], []) st = (r1, s1)"
    by (cases "add_sizes E img d ICON_TYPES ([], []) st") auto
  from add_sizes_world [OF a] have f: "files s1 = files st" by simp
  from assms a obtain icns sa where r1: "r1 = Inr (icns, sa)"
    by (cases r1) (auto simp: try_body_def)
  from assms a r1 obtain data where w: "icns_write icns = Inr data"
    by (cases "icns_write icns") (auto simp: try_body_def)
  from assms a r1 w have wr: "writable E out"
    by (auto simp: try_body_def split: if_splits)
  from assms a r1 w wr have "p = out" "files st' = (files s1)(out \<mapsto> data)"
    by (auto simp: try_body_def print_def Let_def)
  with a r1 w wr f show ?thesis by auto
qed

lemma try_body_run:
  assumes "add_sizes E img d ICON_TYPES ([], []) st = (Inr (icns, sa), s1)"
    and "icns_write icns = Inr data" and "writable E out"
  shows "\<exists>st'. try_body E img out d st = (Inr out, st')"
  using assms by (simp add: try_body_def print_def Let_def)

lemma try_body_stdout:
  assumes "try_body E img out d st = (r, st')"
  shows "\<exists>ms. stdout st' = stdout st @ ms \<and> Warning \<notin> set ms"
proof -
  obtain r1 s1 where a: "add_sizes E img d ICON_TYPES ([], []) st = (r1, s1)"
    by (cases "add_sizes E img d ICON_TYPES ([], []) st") auto
  from add_sizes_world [OF a] obtain ms where ms: "stdout s1 = stdout st @ ms" "Warning \<notin> set ms"
    by blast
  have "st' = s1 \<or> (\<exists>a b c x. stdout st' = stdout s1 @ [Created a, TotalSizes b, FileSize c])
      \<or> (\<exists>a b. stdout st' = stdout s1 @ [Created a, TotalSizes b])"
    using assms a
    by (auto simp: try_body_def print_def Let_def split: sum.splits if_splits option.splits)
  then show ?thesis using ms by auto
qed

lemma print_entries_eq:
  "print_entries icns st =
     st\<lparr>stdout := stdout st @ map (\<lambda>c. Entry (fst c) (type_info_get (fst c)) (length (snd c))) icns\<rparr>"
  by (induction icns st rule: print_entries.induct) (simp_all add: print_def)

lemma inspect_icns_Inr:
  "files st icns_path = Some content \<Longrightarrow> IcnsFile content = Inr icns \<Longrightarrow>
   inspect_icns icns_path st =
     (Inr (), st\<lparr>stdout := stdout st @ [Inspecting icns_path, Rule] @
        map (\<lambda>c. Entry (fst c) (type_info_get (fst c)) (length (snd c))) icns @
        [Rule, TotalEntries (length icns)]\<rparr>)"
  by (simp add: inspect_icns_def Let_def print_def print_entries_eq)

lemma be32_val_be32:
  assumes "n < 4294967296"
  shows "be32_val (be32 n) = n"
proof -
  define n1 where "n1 = n div 256"
  define n2 where "n2 = n1 div 256"
  define n3 where "n3 = n2 div 256"
  have e2: "n div 65536 = n2"
    using div_mult2_eq [of n 256 256] by (simp add: n1_def n2_def)
  have e3: "n div 16777216 = n3"
    using div_mult2_eq [of n 65536 256] e2 by (simp add: n3_def)
  have "n3 < 256" using assms e3 less_mult_imp_div_less [of n 256 16777216] by simp
  then have m3: "n3 mod 256 = n3" by simp
  have d1: "n = n1 * 256 + n mod 256" by (simp add: n1_def)
  have d2: "n1 = n2 * 256 + n1 mod 256" by (simp add: n2_def)
  have d3: "n2 = n3 * 256 + n2 mod 256" by (simp add: n3_def)
  have "be32_val (be32 n) = ((n3 mod 256 * 256 + n2 mod 256) * 256 + n1 mod 256) * 256 + n mod 256"
    by (simp add: be32_val_def be32_def e2 e3 n1_def [symmetric])
  also have "\<dots> = ((n3 * 256 + n2 mod 256) * 256 + n1 mod 256) * 256 + n mod 256"
    by (simp only: m3)
  also have "\<dots> = (n2 * 256 + n1 mod 256) * 256 + n mod 256"
    using d3 by simp
  also have "\<dots> = n1 * 256 + n mod 256" using d2 by simp
  also have "\<dots> = n" using d1 by simp
  finally show ?thesis .
qed

lemma length_be32 [simp]: "length (be32 n) = 4"
  by (simp add: be32_def)

lemma read_chunks_0: "read_chunks 0 bs = Inr []"
  by (simp add: read_chunks.simps)

lemma read_chunks_step:
  assumes "length k = 4" and "n < 4294967296" and "0 < left"
  shows "read_chunks left (k @ be32 n @ rest) =
    (if length rest < n then Inl TruncatedChunk
     else if left < 8 + n then Inl TrailingBytes
     else (case read_chunks (left - (8 + n)) (drop n rest) of
             Inl e \<Rightarrow> Inl e
           | Inr cs \<Rightarrow> Inr ((k, take n rest) # cs)))"
proof -
  define bs where "bs = k @ be32 n @ rest"
  have f: "left \<noteq> 0" "\<not> length bs < 8" "take 4 bs = k" "be32_val (take 4 (drop 4 bs)) = n"
    "drop 8 bs = rest"
    using assms by (auto simp: bs_def be32_val_be32)
  have "read_chunks left bs =
    (if length rest < n then Inl TruncatedChunk
     else if left < 8 + n then Inl TrailingBytes
     else (case read_chunks (left - (8 + n)) (drop n rest) of
             Inl e \<Rightarrow> Inl e
           | Inr cs \<Rightarrow> Inr ((k, take n rest) # cs)))"
    by (subst read_chunks.simps) (simp only: f Let_def if_False)
  then show ?thesis by (simp only: bs_def)
qed

lemma read_chunks_chunk:
  assumes "length k = 4" and "length v < 4294967296"
  shows "read_chunks (8 + length v + left) (chunk_bytes (k, v) @ rest) =
    (case read_chunks left rest of Inl e \<Rightarrow> Inl e | Inr cs \<Rightarrow> Inr ((k, v) # cs))"
  using read_chunks_step [OF assms, of "8 + length v + left" "v @ rest"]
  by (simp add: chunk_bytes_def split: sum.splits)

lemma read_chunks_truncated:
  assumes "length k = 4" and "n < 4294967296" and "length rest < n" and "0 < left"
  shows "read_chunks left (k @ be32 n @ rest) = Inl TruncatedChunk"
  using read_chunks_step [OF assms(1,2,4), of rest] assms(3) by simp

lemma read_chunks_concat:
  assumes "list_all (\<lambda>c. length (fst c) = 4 \<and> length (snd c) < 4294967296) m"
  shows "read_chunks (length (concat (map chunk_bytes m)) + left) (concat (map chunk_bytes m) @ rest) =
    (case read_chunks left rest of Inl e \<Rightarrow> Inl e | Inr cs \<Rightarrow> Inr (m @ cs))"
  using assms
proof (induction m)
  case Nil
  show ?case by (simp split: sum.splits)
next
  case (Cons c m)
  obtain k v where c: "c = (k, v)" by (cases c) auto
  from Cons.prems c have kv: "length k = 4" "length v < 4294967296" by simp_all
  from Cons.prems have m: "list_all (\<lambda>c. length (fst c) = 4 \<and> length (snd c) < 4294967296) m"
    by simp
  define body where "body = concat (map chunk_bytes m)"
  have l: "length (concat (map chunk_bytes (c # m))) + left = 8 + length v + (length body + left)"
    using kv(1) by (simp add: c chunk_bytes_def body_def)
  have "read_chunks (length (concat (map chunk_bytes (c # m))) + left)
        (concat (map chunk_bytes (c # m)) @ rest) =
      read_chunks (8 + length v + (length body + left)) (chunk_bytes (k, v) @ (body @ rest))"
    by (simp only: l) (simp add: c body_def)
  also have "\<dots> = (case read_chunks (length body + left) (body @ rest) of
      Inl e \<Rightarrow> Inl e | Inr cs \<Rightarrow> Inr ((k, v) # cs))"
    using kv by (rule read_chunks_chunk)
  finally show ?case using Cons.IH [OF m] by (simp add: c body_def split: sum.splits)
qed

lemma length_chunk_bytes: "length (chunk_bytes c) = length (fst c) + 4 + length (snd c)"
  by (simp add: chunk_bytes_def)

lemma payload_le_body: "c \<in> set m \<Longrightarrow> length (snd c) \<le> length (concat (map chunk_bytes m))"
  by (induction m) (auto simp: length_chunk_bytes)

lemma icns_write_Inr:
  assumes "icns_write m = Inr data"
  shows "data = ''icns'' @ be32 (length data) @ concat (map chunk_bytes m)"
    and "length data = 8 + length (concat (map chunk_bytes m))"
    and "length data < 4294967296"
    and "list_all (\<lambda>c. length (fst c) = 4 \<and> length (snd c) < 4294967296) m"
proof -
  from assms have a: "list_all (\<lambda>c. length (fst c) = 4) m"
    and b: "8 + length (concat (map chunk_bytes m)) < 4294967296"
    and d: "data = ''icns'' @ be32 (8 + length (concat (map chunk_bytes m))) @ concat (map chunk_bytes m)"
    by (auto simp: icns_write_def Let_def split: if_splits)
  from d show l: "length data = 8 + length (concat (map chunk_bytes m))" by simp
  from d l show "data = ''icns'' @ be32 (length data) @ concat (map chunk_bytes m)" by simp
  from b l show "length data < 4294967296" by simp
  have "\<forall>c \<in> set m. length (snd c) < 4294967296"
  proof
    fix c assume "c \<in> set m"
    then have "length (snd c) \<le> length (concat (map chunk_bytes m))" by (rule payload_le_body)
    with b show "length (snd c) < 4294967296" by simp
  qed
  with a show "list_all (\<lambda>c. length (fst c) = 4 \<and> length (snd c) < 4294967296) m"
    by (simp add: list_all_iff)
qed

lemma decode_icns_write:
  assumes "icns_write m = Inr data"
  shows "decode data = Inr m"
proof -
  note w = icns_write_Inr [OF assms]
  define body where "body = concat (map chunk_bytes m)"
  have d: "data = ''icns'' @ be32 (length data) @ body" using w(1) by (simp add: body_def)
  have l: "length data - 8 = length body + 0" using w(2) by (simp add: body_def)
  have "take 4 data = ''icns''" by (subst d) simp
  moreover have "take 4 (drop 4 data) = be32 (length data)" by (subst d) simp
  moreover have "drop 8 data = body" by (subst d) simp
  moreover have "8 \<le> length data" using w(2) by simp
  ultimately have "decode data = read_chunks (length data - 8) body"
    using w(3) by (simp add: decode_def be32_val_be32 Let_def)
  also have "\<dots> = read_chunks (length body + 0) (body @ [])" by (simp only: l) simp
  also have "\<dots> = Inr m"
    unfolding body_def by (simp only: read_chunks_concat [OF w(4)] read_chunks_0) simp
  finally show ?thesis .
qed


lemma build_icns_Inr:
  assumes "build_icns E img out st = (Inr p, st')"
  shows "p = out \<and> writable E out \<and>
    (\<exists>d st1 icns sa s1 data. add_sizes E img d ICON_TYPES ([], []) st1 = (Inr (icns, sa), s1) \<and>
       icns_write icns = Inr data \<and> files st' = (files st)(out \<mapsto> data))"
proof -
  define d where "d = fst (mkdtemp st)"
  define st1 where "st1 = snd (mkdtemp st)"
  obtain r2 st2 where t: "try_body E img out d st1 = (r2, st2)"
    by (cases "try_body E img out d st1") auto
  have e: "r2 = Inr p" "st' = rmtree d st2"
    using assms t by (simp_all add: build_icns_def d_def st1_def split_beta)
  have f: "files st1 = files st" by (simp add: st1_def mkdtemp_def Let_def)
  from try_body_Inr [OF t [unfolded e(1)]] obtain icns sa s1 data where
    po: "p = out" "writable E out"
    and a: "add_sizes E img d ICON_TYPES ([], []) st1 = (Inr (icns, sa), s1)"
    and w: "icns_write icns = Inr data" and f2: "files st2 = (files st1)(out \<mapsto> data)"
    by blast
  have "files st' = files st2" by (simp add: e(2) rmtree_def)
  with f2 f have "files st' = (files st)(out \<mapsto> data)" by simp
  with a w have "\<exists>d st1 icns sa s1 data.
      add_sizes E img d ICON_TYPES ([], []) st1 = (Inr (icns, sa), s1) \<and>
      icns_write icns = Inr data \<and> files st' = (files st)(out \<mapsto> data)"
    by blast
  with po show ?thesis by simp
qed

lemma build_icns_run:
  assumes "\<And>t. t \<in> set ICON_TYPES \<Longrightarrow> fst (snd t) \<le> max_dim img \<Longrightarrow>
      png_of E img (fst (snd t)) = Inr (f (fst (snd t)))"
    and "icns_write (map (\<lambda>t. (fst t, f (fst (snd t)))) (entries_up_to (max_dim img))) = Inr data"
    and "writable E out"
  shows "fst (build_icns E img out st) = Inr out"
proof -
  define d where "d = fst (mkdtemp st)"
  define st1 where "st1 = snd (mkdtemp st)"
  from add_sizes_run [of ICON_TYPES img E f "[]" d "[]" st1, OF assms(1) ICON_TYPES_distinct]
  obtain s1 where "add_sizes E img d ICON_TYPES ([], []) st1 =
    (Inr (map (\<lambda>t. (fst t, f (fst (snd t)))) (entries_up_to (max_dim img)),
          map (\<lambda>t. snd (snd t)) (entries_up_to (max_dim img))), s1)"
    by (auto simp: entries_up_to_def)
  from try_body_run [OF this assms(2,3)] obtain st2 where
    "try_body E img out d st1 = (Inr out, st2)" by blast
  then show ?thesis by (simp add: build_icns_def d_def st1_def split_beta)
qed

lemma build_icns_stdout:
  assumes "build_icns E img out st = (r, st')"
  shows "\<exists>ms. stdout st' = stdout st @ ms \<and> Warning \<notin> set ms"
proof -
  define d where "d = fst (mkdtemp st)"
  define st1 where "st1 = snd (mkdtemp st)"
  obtain r2 st2 where t: "try_body E img out d st1 = (r2, st2)"
    by (cases "try_body E img out d st1") auto
  have e: "st' = rmtree d st2"
    using assms t by (simp add: build_icns_def d_def st1_def split_beta)
  have f: "stdout st1 = stdout st" by (simp add: st1_def mkdtemp_def Let_def)
  from try_body_stdout [OF t] f show ?thesis by (simp add: e rmtree_def)
qed

lemma create_icns_Inr:
  assumes "create_icns E input_path output_path st = (Inr p, st')"
  shows "\<exists>content img. files st input_path = Some content \<and>
    output_path_of input_path output_path = Inr p \<and> image_open E content = Inr img \<and>
    build_icns E (to_rgba E img) p
      (st\<lparr>stdout := stdout st @ announce input_path (to_rgba E img)\<rparr>) = (Inr p, st')"
proof (cases "files st input_path")
  case None
  with assms show ?thesis by (simp add: create_icns_missing)
next
  case (Some content)
  show ?thesis
  proof (cases "output_path_of input_path output_path")
    case (Inl e)
    with Some assms show ?thesis by (simp add: create_icns_bad_path)
  next
    case (Inr out)
    show ?thesis
    proof (cases "image_open E content")
      case (Inl e)
      with Some Inr assms show ?thesis by (simp add: create_icns_bad_image)
    next
      case img: (Inr img)
      have b: "build_icns E (to_rgba E img) out
          (st\<lparr>stdout := stdout st @ announce input_path (to_rgba E img)\<rparr>) = (Inr p, st')"
        using create_icns_loaded [OF Some Inr img] assms by simp
      from build_icns_Inr [OF b] have "p = out" by simp
      with Some Inr img b show ?thesis by simp
    qed
  qed
qed

lemma demo_png_of: "png_of (demo_env w h) img sz = Inr (pixels img)"
  by (simp add: png_of_def demo_env_def)

lemma demo_loaded:
  "create_icns (demo_env w h) demo_input None demo_world =
     build_icns (demo_env w h) \<lparr>mode = ''RGBA'', size_img = (w, h), pixels = ''px''\<rparr>
       \<lparr>parent = [''assets''], name = ''logo.icns''\<rparr>
       (demo_world\<lparr>stdout := announce demo_input \<lparr>mode = ''RGBA'', size_img = (w, h), pixels = ''px''\<rparr>\<rparr>)"
proof -
  have f: "files demo_world demo_input = Some ''px''" by (simp add: demo_world_def)
  have o: "output_path_of demo_input None = Inr \<lparr>parent = [''assets''], name = ''logo.icns''\<rparr>"
    by (simp add: output_path_of_def with_suffix_def path_suffix_def demo_input_def)
  have i: "image_open (demo_env w h) ''px'' = Inr \<lparr>mode = ''RGB'', size_img = (w, h), pixels = ''px''\<rparr>"
    by (simp add: demo_env_def)
  have r: "to_rgba (demo_env w h) \<lparr>mode = ''RGB'', size_img = (w, h), pixels = ''px''\<rparr> =
      \<lparr>mode = ''RGBA'', size_img = (w, h), pixels = ''px''\<rparr>"
    by (simp add: to_rgba_def demo_env_def)
  show ?thesis using create_icns_loaded [OF f o i] by (simp add: r demo_world_def)
qed

lemma demo_run:
  assumes "icns_write (map (\<lambda>t. (fst t, ''px'')) (entries_up_to (max w h))) = Inr data"
  shows "fst (create_icns (demo_env w h) demo_input None demo_world) =
    Inr \<lparr>parent = [''assets''], name = ''logo.icns''\<rparr>"
proof -
  define img where "img = \<lparr>mode = ''RGBA'', size_img = (w, h), pixels = ''px''\<rparr>"
  have m: "max_dim img = max w h" by (simp add: max_dim_def img_def)
  have p: "\<And>t. png_of (demo_env w h) img (fst (snd t)) = Inr ((\<lambda>sz. ''px'') (fst (snd t)))"
    by (simp add: demo_png_of img_def)
  have wr: "writable (demo_env w h) \<lparr>parent = [''assets''], name = ''logo.icns''\<rparr>"
    by (simp add: demo_env_def)
  show ?thesis
    unfolding demo_loaded img_def [symmetric]
    by (rule build_icns_run [where f = "\<lambda>sz. ''px''" and data = data]) (simp_all add: p m assms wr)
qed

lemma entries_16: "entries_up_to 16 = [(''icp4'', 16, ''16x16'')]"
  by (simp add: entries_up_to_def ICON_TYPES_def)

lemma entries_1024: "entries_up_to 1024 = ICON_TYPES"
  by (simp add: entries_up_to_def ICON_TYPES_def)


lemma demo_write:
  "icns_write (map (\<lambda>t. (fst t, ''px'')) (entries_up_to m)) =
     Inr (''icns'' @ be32 (8 + length (concat (map chunk_bytes (map (\<lambda>t. (fst t, ''px'')) (entries_up_to m))))) @
       concat (map chunk_bytes (map (\<lambda>t. (fst t, ''px'')) (entries_up_to m))))"
proof -
  have "list_all (\<lambda>c. length (fst c) = 4) (map (\<lambda>t. (fst t, ''px'')) (entries_up_to m))"
    using ICON_TYPES_tags by (simp add: entries_up_to_def list_all_iff)
  moreover have "length (concat (map chunk_bytes (map (\<lambda>t. (fst t, ''px'')) (entries_up_to m)))) \<le> 70"
    by (simp add: entries_up_to_def ICON_TYPES_def chunk_bytes_def)
  ultimately show ?thesis by (simp add: icns_write_def Let_def)
qed

lemma create_icns_container:
  assumes "create_icns E input_path output_path st = (Inr p, st')"
  shows "\<exists>content img temp_dir st1 icns sizes_added s1 data.
    files st input_path = Some content \<and> image_open E content = Inr img \<and>
    output_path_of input_path output_path = Inr p \<and> writable E p \<and>
    add_sizes E (to_rgba E img) temp_dir ICON_TYPES ([], []) st1 = (Inr (icns, sizes_added), s1) \<and>
    icns_write icns = Inr data \<and> files st' = (files st)(p \<mapsto> data)"
proof -
  from create_icns_Inr [OF assms] obtain content img where
    c: "files st input_path = Some content" "output_path_of input_path output_path = Inr p"
      "image_open E content = Inr img"
    and b: "build_icns E (to_rgba E img) p
      (st\<lparr>stdout := stdout st @ announce input_path (to_rgba E img)\<rparr>) = (Inr p, st')"
    by blast
  from build_icns_Inr [OF b] obtain d st1 icns sa s1 data where
    "writable E p" "add_sizes E (to_rgba E img) d ICON_TYPES ([], []) st1 = (Inr (icns, sa), s1)"
    "icns_write icns = Inr data" "files st' = (files st)(p \<mapsto> data)"
    by auto
  with c show ?thesis by blast
qed

lemma log_before_simps [simp]:
  "files (log_before l st) = files st"
  "tmp_dirs (log_before l st) = tmp_dirs st"
  "tmp_files (log_before l st) = tmp_files st"
  "stdout (log_before l st) = l @ stdout st"
  by (simp_all add: log_before_def)

lemma print_log_before: "print m (log_before l st) = log_before l (print m st)"
  by (simp add: print_def log_before_def)

lemma add_sizes_log_before:
  "add_sizes E img d ts acc (log_before l st) =
     (case add_sizes E img d ts acc st of (r, s) \<Rightarrow> (r, log_before l s))"
proof (induction E img d ts acc st rule: add_sizes.induct)
  case (1 E source_img temp_dir acc st)
  show ?case by simp
next
  case (2 E source_img temp_dir type_key sz desc rest icns sizes_added st)
  show ?case
  proof (cases "sz \<le> max (fst (size_img source_img)) (snd (size_img source_img))")
    case False
    with 2(2) show ?thesis by simp
  next
    case True
    show ?thesis
    proof (cases "resize E source_img (sz, sz)")
      case (Inl e)
      with True show ?thesis by simp
    next
      case (Inr resized)
      note rs = Inr
      show ?thesis
      proof (cases "save_png E resized")
        case (Inl e)
        with True rs show ?thesis by simp
      next
        case (Inr data)
        define f where "f = (temp_dir, ''icon_'' @ str_nat sz @ ''x'' @ str_nat sz @ ''.png'')"
        define st1 where "st1 = st\<lparr>tmp_files := (tmp_files st)(f \<mapsto> data)\<rparr>"
        have am: "add_media icns type_key f st1 = Inr (dict_set icns type_key data)"
          by (simp add: add_media_def st1_def)
        have am': "add_media icns type_key f (log_before l st1) = Inr (dict_set icns type_key data)"
          by (simp add: add_media_def st1_def)
        have e: "(log_before l st)\<lparr>tmp_files := (tmp_files (log_before l st))(f \<mapsto> data)\<rparr> = log_before l st1"
          by (simp add: log_before_def st1_def)
        have IH: "add_sizes E source_img temp_dir rest (dict_set icns type_key data, sizes_added @ [desc])
            (log_before l (print (Added type_key desc) st1)) =
          (case add_sizes E source_img temp_dir rest (dict_set icns type_key data, sizes_added @ [desc])
             (print (Added type_key desc) st1) of (r, s) \<Rightarrow> (r, log_before l s))"
          using 2(1) [OF True rs Inr f_def st1_def am] .
        have lhs: "add_sizes E source_img temp_dir ((type_key, sz, desc) # rest) (icns, sizes_added) (log_before l st) =
          add_sizes E source_img temp_dir rest (dict_set icns type_key data, sizes_added @ [desc])
            (log_before l (print (Added type_key desc) st1))"
          using True rs Inr am' e by (simp add: Let_def f_def print_log_before)
        have rhs: "add_sizes E source_img temp_dir ((type_key, sz, desc) # rest) (icns, sizes_added) st =
          add_sizes E source_img temp_dir rest (dict_set icns type_key data, sizes_added @ [desc])
            (print (Added type_key desc) st1)"
          using True rs Inr am by (simp add: Let_def f_def st1_def)
        show ?thesis by (simp only: lhs rhs IH)
      qed
    qed
  qed
qed

lemma try_body_log_before:
  "try_body E img out d (log_before l st) =
     (case try_body E img out d st of (r, s) \<Rightarrow> (r, log_before l s))"
proof -
  obtain r1 s1 where a: "add_sizes E img d ICON_TYPES ([], []) st = (r1, s1)"
    by (cases "add_sizes E img d ICON_TYPES ([], []) st") auto
  have a': "add_sizes E img d ICON_TYPES ([], []) (log_before l st) = (r1, log_before l s1)"
    by (simp add: add_sizes_log_before a)
  show ?thesis
    unfolding try_body_def a a'
    by (simp add: print_def log_before_def Let_def split: sum.splits option.splits prod.splits)
qed

lemma build_icns_log_before:
  "build_icns E img out (log_before l st) =
     (case build_icns E img out st of (r, s) \<Rightarrow> (r, log_before l s))"
proof -
  have m: "mkdtemp (log_before l st) = (fst (mkdtemp st), log_before l (snd (mkdtemp st)))"
    by (simp add: mkdtemp_def Let_def log_before_def)
  have r: "\<And>d s. rmtree d (log_before l s) = log_before l (rmtree d s)"
    by (simp add: rmtree_def log_before_def cong: if_cong)
  show ?thesis
    by (simp add: build_icns_def m try_body_log_before r split_beta)
qed

lemma add_sizes_skip:
  "(\<And>t. t \<in> set ts \<Longrightarrow> max_dim img < fst (snd t)) \<Longrightarrow>
   add_sizes E img d ts (icns, sa) st = (Inr (icns, sa), st)"
proof (induction ts)
  case Nil
  show ?case by simp
next
  case (Cons t ts)
  obtain k sz desc where t: "t = (k, sz, desc)" by (cases t) auto
  have "max_dim img < sz" using Cons.prems [of t] t by simp
  then have n: "\<not> sz \<le> max (fst (size_img img)) (snd (size_img img))"
    unfolding max_dim_def by linarith
  have "add_sizes E img d ts (icns, sa) st = (Inr (icns, sa), st)"
    using Cons.prems by (intro Cons.IH) simp
  with n t show ?case by simp
qed

lemma add_sizes_none_selected:
  assumes "max_dim img < 16"
  shows "add_sizes E img d ICON_TYPES ([], []) st = (Inr ([], []), st)"
proof (rule add_sizes_skip)
  fix t assume "t \<in> set ICON_TYPES"
  then have "16 \<le> fst (snd t)" by (auto simp: ICON_TYPES_def)
  with assms show "max_dim img < fst (snd t)" by simp
qed

lemma icns_write_Nil: "icns_write [] = Inr (''icns'' @ be32 8)"
  by (simp add: icns_write_def)

lemma decode_header_only: "decode (''icns'' @ be32 8) = Inr []"
  using decode_icns_write [OF icns_write_Nil] .

lemma build_icns_none_selected:
  assumes "max_dim img < 16"
  shows "fst (build_icns E img out st) = (if writable E out then Inr out else Inl OSError)"
    and "files (snd (build_icns E img out st)) =
      (if writable E out then (files st)(out \<mapsto> ''icns'' @ be32 8) else files st)"
proof -
  define d where "d = fst (mkdtemp st)"
  define st1 where "st1 = snd (mkdtemp st)"
  have f: "files st1 = files st" by (simp add: st1_def mkdtemp_def Let_def)
  have a: "add_sizes E img d ICON_TYPES ([], []) st1 = (Inr ([], []), st1)"
    using assms by (rule add_sizes_none_selected)
  have t: "fst (try_body E img out d st1) = (if writable E out then Inr out else Inl OSError)"
    "files (snd (try_body E img out d st1)) =
      (if writable E out then (files st)(out \<mapsto> ''icns'' @ be32 8) else files st)"
    by (simp_all add: try_body_def a icns_write_Nil print_def Let_def f)
  have b: "build_icns E img out st =
    (fst (try_body E img out d st1), rmtree d (snd (try_body E img out d st1)))"
    by (simp add: build_icns_def d_def st1_def split_beta)
  show "fst (build_icns E img out st) = (if writable E out then Inr out else Inl OSError)"
    by (simp only: b fst_conv t(1))
  have "files (snd (build_icns E img out st)) = files (snd (try_body E img out d st1))"
    by (simp add: b rmtree_def)
  then show "files (snd (build_icns E img out st)) =
      (if writable E out then (files st)(out \<mapsto> ''icns'' @ be32 8) else files st)"
    by (simp only: t(2))
qed

lemma rfind_append:
  "rfind c (xs @ ys) =
     (case rfind c ys of Some i \<Rightarrow> Some (length xs + i) | None \<Rightarrow> rfind c xs)"
  by (induction xs) (auto split: option.splits)


lemma path_stem_nonempty: "name p \<noteq> [] \<Longrightarrow> path_stem p \<noteq> []"
proof (cases "path_suffix p = []")
  case True
  assume "name p \<noteq> []"
  with True show ?thesis by (simp add: path_stem_def)
next
  case False
  assume n: "name p \<noteq> []"
  from False obtain i where i: "rfind (CHR ''.'') (name p) = Some i" "0 < i"
    "i < length (name p) - 1" "path_suffix p = drop i (name p)"
    by (auto simp: path_suffix_def split: option.splits if_splits)
  then have "length (name p) - length (path_suffix p) = i" by simp
  with i(2) n show ?thesis by (simp add: path_stem_def)
qed

lemma with_suffix_icns:
  assumes "with_suffix p ''.icns'' = Inr q"
  shows "parent q = parent p" and "name q = path_stem p @ ''.icns''"
    and "path_suffix q = ''.icns''" and "path_stem q = path_stem p"
proof -
  from assms have n: "name p \<noteq> []"
    by (auto simp: with_suffix_def split: if_splits)
  from assms n have q: "q = p\<lparr>name := path_stem p @ ''.icns''\<rparr>"
    by (auto simp: with_suffix_def path_stem_def Let_def split: if_splits)
  from q show "parent q = parent p" by simp
  from q show nq: "name q = path_stem p @ ''.icns''" by simp
  have s: "path_stem p \<noteq> []" using n by (rule path_stem_nonempty)
  have r: "rfind (CHR ''.'') (name q) = Some (length (path_stem p))"
    by (simp add: nq rfind_append)
  show sq: "path_suffix q = ''.icns''"
    using s by (simp add: path_suffix_def r) (simp add: nq)
  show "path_stem q = path_stem p"
    by (simp add: path_stem_def [of q] sq) (simp add: nq)
qed

lemma ICON_TYPES_keys:
  "map fst ICON_TYPES = [''icp4'', ''icp5'', ''icp6'', ''ic07'', ''ic08'', ''ic09'', ''ic10'']"
  by (simp add: ICON_TYPES_def)

lemma type_info_keys:
  "map fst type_info = [''icp4'', ''icp5'', ''icp6'', ''ic07'', ''ic08'', ''ic09'', ''ic10'',
     ''ic11'', ''ic12'', ''ic13'', ''ic14'']"
  by (simp add: type_info_def)

lemma disjoint_mono: "A \<subseteq> B \<Longrightarrow> B \<inter> C = {} \<Longrightarrow> A \<inter> C = {}"
  by auto

lemma keys_diff:
  "set [''icp4'', ''icp5'', ''icp6'', ''ic07'', ''ic08'', ''ic09'', ''ic10'',
     ''ic11'', ''ic12'', ''ic13'', ''ic14''] -
   set [''icp4'', ''icp5'', ''icp6'', ''ic07'', ''ic08'', ''ic09'', ''ic10''] =
   {''ic11'', ''ic12'', ''ic13'', ''ic14''}"
  by simp

lemma keys_psubset:
  "set [''icp4'', ''icp5'', ''icp6'', ''ic07'', ''ic08'', ''ic09'', ''ic10''] \<subset>
   set [''icp4'', ''icp5'', ''icp6'', ''ic07'', ''ic08'', ''ic09'', ''ic10'',
     ''ic11'', ''ic12'', ''ic13'', ''ic14'']"
proof (rule psubsetI)
  show "set [''icp4'', ''icp5'', ''icp6'', ''ic07'', ''ic08'', ''ic09'', ''ic10''] \<subseteq>
   set [''icp4'', ''icp5'', ''icp6'', ''ic07'', ''ic08'', ''ic09'', ''ic10'',
     ''ic11'', ''ic12'', ''ic13'', ''ic14'']" by simp
  have "''ic11'' \<notin> set [''icp4'', ''icp5'', ''icp6'', ''ic07'', ''ic08'', ''ic09'', ''ic10'']"
    by simp
  moreover have "''ic11'' \<in> set [''icp4'', ''icp5'', ''icp6'', ''ic07'', ''ic08'', ''ic09'', ''ic10'',
     ''ic11'', ''ic12'', ''ic13'', ''ic14'']" by simp
  ultimately show "set [''icp4'', ''icp5'', ''icp6'', ''ic07'', ''ic08'', ''ic09'', ''ic10''] \<noteq>
   set [''icp4'', ''icp5'', ''icp6'', ''ic07'', ''ic08'', ''ic09'', ''ic10'',
     ''ic11'', ''ic12'', ''ic13'', ''ic14'']" by metis
qed

lemma char_of_digit: "char_of (x * 256 + of_char c :: nat) = c"
proof -
  have "char_of (x * 256 + of_char c :: nat) = char_of ((x * 256 + of_char c) mod 256 :: nat)"
    by (simp only: char_of_mod_256)
  also have "(x * 256 + of_char c) mod 256 = (of_char c :: nat)" by simp
  finally show ?thesis by simp
qed

lemma be32_val_4:
  "be32_val [a, b, c, d] = ((of_char a * 256 + of_char b) * 256 + of_char c) * 256 + of_char d"
  by (simp add: be32_val_def)

lemma be32_be32_val:
  assumes "length x = 4"
  shows "be32 (be32_val x) = x" and "be32_val x < 4294967296"
proof -
  from assms obtain a b c d where x: "x = [a, b, c, d]"
    by (auto simp: length_Suc_conv eval_nat_numeral)
  define A B C D :: nat where "A = of_char a" and "B = of_char b" and "C = of_char c"
    and "D = of_char d"
  have lt: "A < 256" "B < 256" "C < 256" "D < 256" by (simp_all add: A_def B_def C_def D_def)
  define n where "n = ((A * 256 + B) * 256 + C) * 256 + D"
  have v: "be32_val x = n" by (simp add: x be32_val_4 n_def A_def B_def C_def D_def)
  have d1: "n div 256 = (A * 256 + B) * 256 + C" using lt by (simp add: n_def)
  have d2: "n div 65536 = A * 256 + B"
    using div_mult2_eq [of n 256 256] d1 lt by simp
  have d3: "n div 16777216 = A"
    using div_mult2_eq [of n 65536 256] d2 lt by simp
  have "char_of n = d" unfolding n_def D_def by (rule char_of_digit)
  moreover have "char_of (n div 256) = c" unfolding d1 C_def by (rule char_of_digit)
  moreover have "char_of (n div 65536) = b" unfolding d2 B_def by (rule char_of_digit)
  moreover have "char_of (n div 16777216) = a" unfolding d3 A_def by simp
  ultimately have "be32 n = [a, b, c, d]" by (simp add: be32_def)
  then show "be32 (be32_val x) = x" unfolding v by (simp add: x)
  show "be32_val x < 4294967296" unfolding v n_def using lt by simp
qed

lemma split_header: "bs = take 4 bs @ take 4 (drop 4 bs) @ drop 8 bs"
proof -
  have "take 4 (drop 4 bs) @ drop 8 bs = take 4 (drop 4 bs) @ drop 4 (drop 4 bs)" by simp
  also have "\<dots> = drop 4 bs" by (rule append_take_drop_id)
  finally have "take 4 bs @ take 4 (drop 4 bs) @ drop 8 bs = take 4 bs @ drop 4 bs" by simp
  also have "\<dots> = bs" by (rule append_take_drop_id)
  finally show ?thesis by (rule sym)
qed

lemma read_chunks_exact:
  "read_chunks left bs = Inr cs \<Longrightarrow>
   left \<le> length bs \<and> take left bs = concat (map chunk_bytes cs) \<and>
   list_all (\<lambda>c. length (fst c) = 4) cs"
proof (induction left bs arbitrary: cs rule: read_chunks.induct)
  case (1 left bs)
  show ?case
  proof (cases "left = 0")
    case True
    with "1.prems" show ?thesis by (simp add: read_chunks.simps)
  next
    case False
    define type_id where "type_id = take 4 bs"
    define len where "len = be32_val (take 4 (drop 4 bs))"
    define rest where "rest = drop 8 bs"
    define left' where "left' = left - (8 + len)"
    have unf: "read_chunks left bs =
      (if length bs < 8 then Inl TrailingBytes
       else if length rest < len then Inl TruncatedChunk
       else if left < 8 + len then Inl TrailingBytes
       else (case read_chunks left' (drop len rest) of
               Inl e \<Rightarrow> Inl e
             | Inr cs \<Rightarrow> Inr ((type_id, take len rest) # cs)))"
      using False
      by (subst read_chunks.simps)
        (simp only: Let_def if_False type_id_def len_def rest_def left'_def)
    from "1.prems" unf have l8: "\<not> length bs < 8" by (auto split: if_splits)
    from "1.prems" unf l8 have ll: "\<not> length rest < len" by (auto split: if_splits)
    from "1.prems" unf l8 ll have lf: "\<not> left < 8 + len" by (auto split: if_splits)
    from "1.prems" unf l8 ll lf obtain cs' where
      r: "read_chunks left' (drop len rest) = Inr cs'" and cs: "cs = (type_id, take len rest) # cs'"
      by (auto split: sum.splits)
    have IH: "left' \<le> length (drop len rest) \<and>
        take left' (drop len rest) = concat (map chunk_bytes cs') \<and>
        list_all (\<lambda>c. length (fst c) = 4) cs'"
      using "1.IH" [OF False l8 type_id_def len_def rest_def ll lf r [unfolded left'_def]]
      by (simp only: left'_def)
    have t4: "length type_id = 4" using l8 by (simp add: type_id_def)
    have f4: "length (take 4 (drop 4 bs)) = 4" using l8 by simp
    have b: "be32 len = take 4 (drop 4 bs)" unfolding len_def using f4 by (rule be32_be32_val(1))
    have lr: "length rest = length bs - 8" by (simp add: rest_def)
    have le: "left = 8 + len + left'" using lf by (simp add: left'_def)
    have "left' \<le> length rest - len" using IH by simp
    then have bound: "left \<le> length bs" using ll l8 lr le by arith
    have "take left bs = take 8 bs @ take (len + left') (drop 8 bs)"
      unfolding le by (simp add: take_add add.assoc)
    also have "take 8 bs = take 4 bs @ take 4 (drop 4 bs)"
      using take_add [of 4 4 bs] by simp
    also have "take (len + left') (drop 8 bs) = take len rest @ take left' (drop len rest)"
      by (simp only: rest_def take_add)
    finally have "take left bs =
        type_id @ be32 len @ take len rest @ concat (map chunk_bytes cs')"
      using IH by (simp add: type_id_def b)
    also have "\<dots> = chunk_bytes (type_id, take len rest) @ concat (map chunk_bytes cs')"
      using ll by (simp add: chunk_bytes_def min_absorb2)
    finally have "take left bs = concat (map chunk_bytes cs)" by (simp add: cs)
    with IH t4 bound show ?thesis by (simp add: cs)
  qed
qed

lemma decode_exact:
  assumes "decode bs = Inr cs"
  shows "icns_write cs = Inr bs"
proof -
  define declared where "declared = be32_val (take 4 (drop 4 bs))"
  from assms have h: "\<not> length bs < 8" "take 4 bs = ''icns''" "\<not> declared < 8"
    "\<not> declared < length bs" and r: "read_chunks (declared - 8) (drop 8 bs) = Inr cs"
    by (auto simp: decode_def Let_def declared_def split: if_splits)
  from read_chunks_exact [OF r] have le: "declared - 8 \<le> length (drop 8 bs)"
    and body: "take (declared - 8) (drop 8 bs) = concat (map chunk_bytes cs)"
    and tags: "list_all (\<lambda>c. length (fst c) = 4) cs" by simp_all
  have t: "declared = length bs" using le h by simp
  have body': "drop 8 bs = concat (map chunk_bytes cs)" using body by (simp add: t)
  have f4: "length (take 4 (drop 4 bs)) = 4" using h(1) by simp
  have lt: "length bs < 4294967296" using be32_be32_val(2) [OF f4] t by (simp add: declared_def)
  have b: "be32 (length bs) = take 4 (drop 4 bs)"
    using be32_be32_val(1) [OF f4] t by (simp add: declared_def)
  have len: "8 + length (concat (map chunk_bytes cs)) = length bs"
    using h(1) body' [symmetric] by simp
  have "bs = take 4 bs @ take 4 (drop 4 bs) @ drop 8 bs"
    by (rule split_header)
  then have "bs = ''icns'' @ be32 (length bs) @ concat (map chunk_bytes cs)"
    by (simp only: h(2) b body')
  then show ?thesis using tags lt len by (simp add: icns_write_def Let_def)
qed

lemma decode_truncated_chunk:
  assumes "list_all (\<lambda>c. length (fst c) = 4 \<and> length (snd c) < 4294967296) cs"
    and "length k = 4" and "n < 4294967296" and "length rest < n"
    and "bs = ''icns'' @ be32 declared @ concat (map chunk_bytes cs) @ k @ be32 n @ rest"
    and "length bs \<le> declared" and "declared < 4294967296"
  shows "decode bs = Inl TruncatedChunk"
proof -
  define pre where "pre = concat (map chunk_bytes cs)"
  define body where "body = pre @ k @ be32 n @ rest"
  define left where "left = declared - 8 - length pre"
  have bs: "bs = ''icns'' @ be32 declared @ body" using assms(5) by (simp add: body_def pre_def)
  have lb: "length bs = 8 + length pre + 8 + length rest"
    using assms(2) by (simp add: bs body_def)
  have pos: "0 < left" using assms(6) lb by (simp add: left_def)
  have tot: "declared - 8 = length pre + left" using assms(6) lb by (simp add: left_def)
  have "take 4 bs = ''icns''" by (subst bs) simp
  moreover have "take 4 (drop 4 bs) = be32 declared" by (subst bs) simp
  moreover have "drop 8 bs = body" by (subst bs) simp
  moreover have "\<not> length bs < 8" using lb by simp
  moreover have "\<not> declared < 8" using assms(6) lb by simp
  ultimately have "decode bs = read_chunks (declared - 8) body"
    using assms(6,7) by (simp add: decode_def be32_val_be32 Let_def)
  also have "\<dots> = read_chunks (length pre + left) (pre @ k @ be32 n @ rest)"
    by (simp only: tot body_def)
  also have "\<dots> = Inl TruncatedChunk"
    unfolding pre_def
    by (simp only: read_chunks_concat [OF assms(1)] read_chunks_truncated [OF assms(2,3,4) pos])
      simp
  finally show ?thesis .
qed

lemma decode_one_byte_short:
  assumes "icns_write m = Inr data" and "m \<noteq> []" and "snd (last m) \<noteq> []"
  shows "be32_val (take 4 (drop 4 (butlast data))) = length data"
    and "length (butlast data) = length data - 1"
    and "decode (butlast data) = Inl TruncatedChunk"
proof -
  note w = icns_write_Inr [OF assms(1)]
  obtain ms c where m: "m = ms @ [c]" using assms(2) by (cases m rule: rev_cases) auto
  obtain k v where c: "c = (k, v)" by (cases c) auto
  have v: "v \<noteq> []" using assms(3) by (simp add: m c)
  have ok: "list_all (\<lambda>c. length (fst c) = 4 \<and> length (snd c) < 4294967296) ms"
    and k: "length k = 4" and n: "length v < 4294967296"
    using w(4) by (simp_all add: m c)
  have d: "data = ''icns'' @ be32 (length data) @ concat (map chunk_bytes ms) @ k @ be32 (length v) @ v"
    using w(1) by (simp add: m c chunk_bytes_def)
  have bl: "butlast data =
      ''icns'' @ be32 (length data) @ concat (map chunk_bytes ms) @ k @ be32 (length v) @ butlast v"
    by (subst d) (simp add: butlast_append v)
  have "take 4 (drop 4 (butlast data)) = be32 (length data)" by (subst bl) simp
  then show "be32_val (take 4 (drop 4 (butlast data))) = length data"
    using w(3) by (simp add: be32_val_be32)
  show "length (butlast data) = length data - 1" by simp
  have short: "length (butlast v) < length v" using v by simp
  have le: "length (butlast data) \<le> length data" by simp
  show "decode (butlast data) = Inl TruncatedChunk"
    using ok k n short bl le w(3) by (rule decode_truncated_chunk)
qed

lemma failing_run:
  "fst (create_icns failing_env demo_input None demo_world) = Inl ResampleError"
proof -
  define src where "src = \<lparr>mode = ''RGBA'', size_img = (16::nat, 16::nat), pixels = ''px''\<rparr>"
  define out where "out = \<lparr>parent = [''assets''], name = ''logo.icns''\<rparr>"
  have f: "files demo_world demo_input = Some ''px''" by (simp add: demo_world_def)
  have o: "output_path_of demo_input None = Inr out"
    by (simp add: output_path_of_def with_suffix_def path_suffix_def demo_input_def out_def)
  have i: "image_open failing_env ''px'' = Inr \<lparr>mode = ''RGB'', size_img = (16, 16), pixels = ''px''\<rparr>"
    by (simp add: failing_env_def demo_env_def)
  have r: "to_rgba failing_env \<lparr>mode = ''RGB'', size_img = (16, 16), pixels = ''px''\<rparr> = src"
    by (simp add: to_rgba_def failing_env_def demo_env_def src_def)
  have a: "\<And>d st. add_sizes failing_env src d ICON_TYPES ([], []) st = (Inl ResampleError, st)"
    by (simp add: ICON_TYPES_def src_def failing_env_def)
  have t: "\<And>d st. fst (try_body failing_env src out d st) = Inl ResampleError"
    by (simp add: try_body_def a)
  have "\<And>st. fst (build_icns failing_env src out st) = Inl ResampleError"
    by (simp add: build_icns_def split_beta t)
  then show ?thesis by (simp add: create_icns_loaded [OF f o i] r)
qed

subsection \<open>Claims\<close>

text \<open>
  C7. On every way out of \<open>create_icns\<close> (a normal return, a missing input, an exception of
  the image library, of the resampler, of the PNG writer or of the container writer) the
  temporary directory it created is gone: the temporary directories after the call are
  those before it, and no file inside a temporary directory has been added. Here
  \<open>rmtree\<close> removes the directory it is given.
\<close>

theorem create_icns_releases_temp_dir:
  "tmp_dirs (snd (create_icns E input_path output_path st)) = tmp_dirs st \<and>
   dom (tmp_files (snd (create_icns E input_path output_path st))) \<subseteq> dom (tmp_files st)"
proof (cases "files st input_path")
  case None
  then show ?thesis by (simp add: create_icns_missing)
next
  case (Some content)
  show ?thesis
  proof (cases "output_path_of input_path output_path")
    case (Inl e)
    with Some show ?thesis by (simp add: create_icns_bad_path)
  next
    case (Inr out)
    show ?thesis
    proof (cases "image_open E content")
      case (Inl e)
      with Some Inr show ?thesis by (simp add: create_icns_bad_image print_def)
    next
      case img: (Inr img)
      define st3 where "st3 = st\<lparr>stdout := stdout st @ announce input_path (to_rgba E img)\<rparr>"
      obtain r st' where b: "build_icns E (to_rgba E img) out st3 = (r, st')"
        by (cases "build_icns E (to_rgba E img) out st3") auto
      have "create_icns E input_path output_path st = (r, st')"
        using create_icns_loaded [OF Some Inr img] b by (simp add: st3_def)
      moreover have "tmp_dirs st' = tmp_dirs st3 \<and> dom (tmp_files st') \<subseteq> dom (tmp_files st3)"
        using b by (rule build_icns_tmp)
      ultimately show ?thesis by (simp add: st3_def)
    qed
  qed
qed

theorem create_icns_releases_temp_dir_witness:
  "fst (create_icns failing_env demo_input None demo_world) = Inl ResampleError \<and>
   tmp_dirs (snd (create_icns failing_env demo_input None demo_world)) = [] \<and>
   dom (tmp_files (snd (create_icns failing_env demo_input None demo_world))) \<subseteq> {} \<and>
   tmp_dirs (snd (create_icns (demo_env 16 16) demo_input None demo_world)) = [] \<and>
   dom (tmp_files (snd (create_icns (demo_env 16 16) demo_input None demo_world))) \<subseteq> {}"
  using create_icns_releases_temp_dir [of "demo_env 16 16" demo_input None demo_world]
    create_icns_releases_temp_dir [of failing_env demo_input None demo_world] failing_run
  by (simp add: demo_world_def)

text \<open>
  C1. When \<open>create_icns\<close> returns, the container it wrote holds exactly one chunk for each
  entry of \<open>ICON_TYPES\<close> whose size is at most the larger dimension of the source, in the
  order of the table, each chunk being the PNG of the source resized to that size. A
  16x16 source gives the single chunk \<open>icp4\<close>; a 1024x1024 source gives all seven chunks
  in the order of the table.
\<close>

theorem create_icns_entries_up_to:
  assumes "create_icns E input_path output_path st = (Inr p, st')"
  shows "\<exists>content img temp_dir st1 icns sizes_added s1 data.
    files st input_path = Some content \<and> image_open E content = Inr img \<and>
    add_sizes E (to_rgba E img) temp_dir ICON_TYPES ([], []) st1 = (Inr (icns, sizes_added), s1) \<and>
    icns_write icns = Inr data \<and> files st' p = Some data \<and>
    map fst icns = map fst (entries_up_to (max_dim (to_rgba E img))) \<and>
    list_all2 (\<lambda>c t. fst c = fst t \<and> png_of E (to_rgba E img) (fst (snd t)) = Inr (snd c))
      icns (entries_up_to (max_dim (to_rgba E img))) \<and>
    (size_img (to_rgba E img) = (16, 16) \<longrightarrow> map fst icns = [''icp4'']) \<and>
    (size_img (to_rgba E img) = (1024, 1024) \<longrightarrow>
       map fst icns = [''icp4'', ''icp5'', ''icp6'', ''ic07'', ''ic08'', ''ic09'', ''ic10''])"
proof -
  from create_icns_container [OF assms] obtain content img temp_dir st1 icns sizes_added s1 data
    where c: "files st input_path = Some content" "image_open E content = Inr img"
    and a: "add_sizes E (to_rgba E img) temp_dir ICON_TYPES ([], []) st1 = (Inr (icns, sizes_added), s1)"
    and w: "icns_write icns = Inr data" and f: "files st' = (files st)(p \<mapsto> data)"
    by blast
  have k: "map fst icns = map fst (entries_up_to (max_dim (to_rgba E img)))"
    using a by (rule build_media_keys)
  have l: "list_all2 (\<lambda>c t. fst c = fst t \<and> png_of E (to_rgba E img) (fst (snd t)) = Inr (snd c))
      icns (entries_up_to (max_dim (to_rgba E img)))"
    using a by (rule build_media(1))
  have s16: "size_img (to_rgba E img) = (16, 16) \<longrightarrow> map fst icns = [''icp4'']"
    using k by (simp add: max_dim_def entries_16)
  have s1024: "size_img (to_rgba E img) = (1024, 1024) \<longrightarrow>
      map fst icns = [''icp4'', ''icp5'', ''icp6'', ''ic07'', ''ic08'', ''ic09'', ''ic10'']"
    using k by (simp add: max_dim_def entries_1024 ICON_TYPES_def)
  have fd: "files st' p = Some data" using f by simp
  show ?thesis by (intro exI conjI) (rule c a w k l s16 s1024 fd)+
qed

theorem create_icns_entries_up_to_witness:
  "\<exists>icns data.
     files (snd (create_icns (demo_env 16 16) demo_input None demo_world))
       \<lparr>parent = [''assets''], name = ''logo.icns''\<rparr> = Some data \<and>
     icns_write icns = Inr data \<and> map fst icns = [''icp4'']"
proof -
  define st' where "st' = snd (create_icns (demo_env 16 16) demo_input None demo_world)"
  define p where "p = \<lparr>parent = [''assets''], name = ''logo.icns''\<rparr>"
  have "fst (create_icns (demo_env 16 16) demo_input None demo_world) = Inr p"
    unfolding p_def by (rule demo_run [OF demo_write])
  then have run: "create_icns (demo_env 16 16) demo_input None demo_world = (Inr p, st')"
    by (simp add: st'_def prod_eq_iff)
  from create_icns_entries_up_to [OF run] obtain content img icns data where
    i: "image_open (demo_env 16 16) content = Inr img"
    and w: "icns_write icns = Inr data" "files st' p = Some data"
    and s: "size_img (to_rgba (demo_env 16 16) img) = (16, 16) \<longrightarrow> map fst icns = [''icp4'']"
    by (elim exE conjE) (rule that)
  from i have "size_img (to_rgba (demo_env 16 16) img) = (16, 16)"
    by (auto simp: demo_env_def to_rgba_def)
  with s have k: "map fst icns = [''icp4'']" by simp
  show ?thesis
    using w k unfolding st'_def p_def by (intro exI [of _ icns] exI [of _ data]) simp
qed

text \<open>
  C5. The label lookup \<open>type_info.get(key, 'unknown')\<close> has a value for every key:
  \<open>ic07\<close> gives \<open>128x128\<close>, \<open>zzzz\<close> gives \<open>unknown\<close>, every key outside the table gives
  \<open>unknown\<close> and every key of the table gives a label of the table. \<open>inspect_icns\<close>
  on a container that parses returns normally whatever its keys are, and prints each
  entry with the label the lookup gives.
\<close>

theorem type_info_get_total:
  "type_info_get ''ic07'' = ''128x128'' \<and> type_info_get ''zzzz'' = ''unknown'' \<and>
   (\<forall>key. key \<notin> fst ` set type_info \<longrightarrow> type_info_get key = ''unknown'') \<and>
   (\<forall>key. key \<in> fst ` set type_info \<longrightarrow> (key, type_info_get key) \<in> set type_info) \<and>
   (\<forall>(st::world) icns_path content icns.
      files st icns_path = Some content \<and> IcnsFile content = Inr icns \<longrightarrow>
      fst (inspect_icns icns_path st) = Inr () \<and>
      stdout (snd (inspect_icns icns_path st)) =
        stdout st @ [Inspecting icns_path, Rule] @
        map (\<lambda>c. Entry (fst c) (type_info_get (fst c)) (length (snd c))) icns @
        [Rule, TotalEntries (length icns)])"
proof (intro conjI allI impI)
  show "type_info_get ''ic07'' = ''128x128''" by (simp add: type_info_get_def type_info_def)
  show "type_info_get ''zzzz'' = ''unknown''" by (simp add: type_info_get_def type_info_def)
next
  fix key assume "key \<notin> fst ` set type_info"
  then have "map_of type_info key = None" by (simp add: map_of_eq_None_iff)
  then show "type_info_get key = ''unknown''" by (simp add: type_info_get_def)
next
  fix key assume "key \<in> fst ` set type_info"
  then obtain d where d: "map_of type_info key = Some d"
    by (cases "map_of type_info key") (auto simp: map_of_eq_None_iff)
  then have "(key, d) \<in> set type_info" by (rule map_of_SomeD)
  with d show "(key, type_info_get key) \<in> set type_info" by (simp add: type_info_get_def)
next
  fix st :: world and icns_path content icns
  assume a: "files st icns_path = Some content \<and> IcnsFile content = Inr icns"
  then show "fst (inspect_icns icns_path st) = Inr ()"
    by (simp add: inspect_icns_Inr)
  from a show "stdout (snd (inspect_icns icns_path st)) =
        stdout st @ [Inspecting icns_path, Rule] @
        map (\<lambda>c. Entry (fst c) (type_info_get (fst c)) (length (snd c))) icns @
        [Rule, TotalEntries (length icns)]"
    by (simp add: inspect_icns_Inr)
qed

theorem type_info_get_total_witness:
  "''zzzz'' \<notin> fst ` set type_info \<and> type_info_get ''zzzz'' = ''unknown'' \<and>
   ''ic07'' \<in> fst ` set type_info \<and> (''ic07'', type_info_get ''ic07'') \<in> set type_info"
proof -
  have a: "''zzzz'' \<notin> fst ` set type_info" by (simp add: type_info_def)
  have b: "''ic07'' \<in> fst ` set type_info" by (simp add: type_info_def)
  note t = type_info_get_total
  have u: "type_info_get ''zzzz'' = ''unknown''"
    using t [THEN conjunct2, THEN conjunct2, THEN conjunct1, THEN spec, THEN mp, OF a] .
  have v: "(''ic07'', type_info_get ''ic07'') \<in> set type_info"
    using t [THEN conjunct2, THEN conjunct2, THEN conjunct2, THEN conjunct1, THEN spec, THEN mp, OF b] .
  from a u b v show ?thesis by (intro conjI)
qed

text \<open>
  C8. The seven type keys of \<open>ICON_TYPES\<close> are pairwise distinct and four characters
  long, and the container that \<open>create_icns\<close> writes has pairwise distinct type keys, all
  of them keys of the table.
\<close>

theorem create_icns_distinct_type_ids:
  assumes "create_icns E input_path output_path st = (Inr p, st')"
  shows "distinct (map fst ICON_TYPES) \<and> length ICON_TYPES = 7 \<and>
    list_all (\<lambda>t. length (fst t) = 4) ICON_TYPES \<and>
    (\<exists>temp_dir img st1 icns sizes_added s1 data.
       add_sizes E img temp_dir ICON_TYPES ([], []) st1 = (Inr (icns, sizes_added), s1) \<and>
       icns_write icns = Inr data \<and> files st' p = Some data \<and>
       distinct (map fst icns) \<and> set (map fst icns) \<subseteq> set (map fst ICON_TYPES))"
proof -
  from create_icns_container [OF assms] obtain img temp_dir st1 icns sizes_added s1 data
    where a: "add_sizes E (to_rgba E img) temp_dir ICON_TYPES ([], []) st1 = (Inr (icns, sizes_added), s1)"
    and w: "icns_write icns = Inr data" and f: "files st' = (files st)(p \<mapsto> data)"
    by blast
  have k: "map fst icns = map fst (entries_up_to (max_dim (to_rgba E img)))"
    using a by (rule build_media_keys)
  have d: "distinct (map fst icns)"
    unfolding k entries_up_to_def using ICON_TYPES_distinct by (rule distinct_map_filter)
  have s: "set (map fst icns) \<subseteq> set (map fst ICON_TYPES)"
    unfolding k entries_up_to_def by auto
  have "files st' p = Some data" using f by simp
  have fd: "files st' p = Some data" using f by simp
  have "\<exists>temp_dir img st1 icns sizes_added s1 data.
       add_sizes E img temp_dir ICON_TYPES ([], []) st1 = (Inr (icns, sizes_added), s1) \<and>
       icns_write icns = Inr data \<and> files st' p = Some data \<and>
       distinct (map fst icns) \<and> set (map fst icns) \<subseteq> set (map fst ICON_TYPES)"
    by (intro exI conjI) (rule a w fd d s)+
  moreover have "length ICON_TYPES = 7" by (simp add: ICON_TYPES_def)
  ultimately show ?thesis using ICON_TYPES_distinct ICON_TYPES_tags by simp
qed

theorem create_icns_distinct_type_ids_witness:
  "\<exists>icns data.
     files (snd (create_icns (demo_env 1024 1024) demo_input None demo_world))
       \<lparr>parent = [''assets''], name = ''logo.icns''\<rparr> = Some data \<and>
     icns_write icns = Inr data \<and> distinct (map fst icns)"
proof -
  define st' where "st' = snd (create_icns (demo_env 1024 1024) demo_input None demo_world)"
  define p where "p = \<lparr>parent = [''assets''], name = ''logo.icns''\<rparr>"
  have "fst (create_icns (demo_env 1024 1024) demo_input None demo_world) = Inr p"
    unfolding p_def by (rule demo_run [OF demo_write])
  then have run: "create_icns (demo_env 1024 1024) demo_input None demo_world = (Inr p, st')"
    by (simp add: st'_def prod_eq_iff)
  from create_icns_distinct_type_ids [OF run] obtain icns data where
    "icns_write icns = Inr data" "files st' p = Some data" "distinct (map fst icns)"
    by (elim exE conjE) (rule that)
  then show ?thesis
    unfolding st'_def p_def by (intro exI [of _ icns] exI [of _ data]) simp
qed

text \<open>
  C2. An 8x8 source: \<open>create_icns\<close> does not fail. It returns the output path and has
  written there a container that is the 8-byte header alone.
\<close>

theorem create_icns_below_16_counterexample:
  "fst (create_icns (demo_env 8 8) demo_input None demo_world) =
     Inr \<lparr>parent = [''assets''], name = ''logo.icns''\<rparr> \<and>
   files (snd (create_icns (demo_env 8 8) demo_input None demo_world))
     \<lparr>parent = [''assets''], name = ''logo.icns''\<rparr> = Some (''icns'' @ be32 8)"
proof -
  have m: "max_dim \<lparr>mode = ''RGBA'', size_img = (8, 8), pixels = ''px''\<rparr> < 16"
    by (simp add: max_dim_def)
  have w: "writable (demo_env 8 8) \<lparr>parent = [''assets''], name = ''logo.icns''\<rparr>"
    by (simp add: demo_env_def)
  show ?thesis
    unfolding demo_loaded using build_icns_none_selected [OF m] w by simp
qed

text \<open>
  C2, as the code has it. For a source whose larger dimension is below 16, no entry of the
  table is selected and nothing is raised for that: when the output path can be written,
  \<open>create_icns\<close> returns it and the file there is the header alone, a container with
  zero chunks that the decoder reads back as the empty sequence; when it cannot, the
  failure is that of the write, and no file is changed.
\<close>

theorem create_icns_below_16:
  assumes "files st input_path = Some content"
    and "output_path_of input_path output_path = Inr out"
    and "image_open E content = Inr img"
    and "max_dim (to_rgba E img) < 16"
  shows "fst (create_icns E input_path output_path st) =
      (if writable E out then Inr out else Inl OSError) \<and>
    files (snd (create_icns E input_path output_path st)) =
      (if writable E out then (files st)(out \<mapsto> ''icns'' @ be32 8) else files st) \<and>
    icns_write [] = Inr (''icns'' @ be32 8) \<and> decode (''icns'' @ be32 8) = Inr []"
  using build_icns_none_selected [OF assms(4)] icns_write_Nil decode_header_only
  by (simp add: create_icns_loaded [OF assms(1,2,3)])

theorem create_icns_below_16_witness:
  "fst (create_icns (demo_env 15 4) demo_input (Some \<lparr>parent = [], name = ''out.icns''\<rparr>) demo_world) =
     Inr \<lparr>parent = [], name = ''out.icns''\<rparr> \<and>
   files (snd (create_icns (demo_env 15 4) demo_input (Some \<lparr>parent = [], name = ''out.icns''\<rparr>) demo_world)) =
     (files demo_world)(\<lparr>parent = [], name = ''out.icns''\<rparr> \<mapsto> ''icns'' @ be32 8)"
proof -
  define out where "out = \<lparr>parent = [], name = ''out.icns''\<rparr>"
  define img where "img = \<lparr>mode = ''RGB'', size_img = (15::nat, 4::nat), pixels = ''px''\<rparr>"
  have f: "files demo_world demo_input = Some ''px''" by (simp add: demo_world_def)
  have o: "output_path_of demo_input (Some out) = Inr out" by (simp add: output_path_of_def)
  have i: "image_open (demo_env 15 4) ''px'' = Inr img" by (simp add: demo_env_def img_def)
  have m: "max_dim (to_rgba (demo_env 15 4) img) < 16"
    by (simp add: max_dim_def to_rgba_def demo_env_def img_def)
  have w: "writable (demo_env 15 4) out" by (simp add: demo_env_def)
  from create_icns_below_16 [OF f o i m] w show ?thesis unfolding out_def by simp
qed

text \<open>
  C3. A 1024x100 source: the two dimensions are not both below 512, and the warning is
  printed all the same (and the call returns normally).
\<close>

theorem create_icns_warning_counterexample:
  "image_open (demo_env 1024 100) ''px'' =
     Inr \<lparr>mode = ''RGB'', size_img = (1024, 100), pixels = ''px''\<rparr> \<and>
   \<not> ((1024::nat) < 512 \<and> (100::nat) < 512) \<and>
   fst (create_icns (demo_env 1024 100) demo_input None demo_world) =
     Inr \<lparr>parent = [''assets''], name = ''logo.icns''\<rparr> \<and>
   Warning \<in> set (stdout (snd (create_icns (demo_env 1024 100) demo_input None demo_world)))"
proof -
  define st3 where "st3 = demo_world\<lparr>stdout := announce demo_input
    \<lparr>mode = ''RGBA'', size_img = (1024, 100), pixels = ''px''\<rparr>\<rparr>"
  obtain r st' where b: "build_icns (demo_env 1024 100)
      \<lparr>mode = ''RGBA'', size_img = (1024, 100), pixels = ''px''\<rparr>
      \<lparr>parent = [''assets''], name = ''logo.icns''\<rparr> st3 = (r, st')"
    by (cases "build_icns (demo_env 1024 100)
      \<lparr>mode = ''RGBA'', size_img = (1024, 100), pixels = ''px''\<rparr>
      \<lparr>parent = [''assets''], name = ''logo.icns''\<rparr> st3") auto
  from build_icns_stdout [OF b] obtain ms where "stdout st' = stdout st3 @ ms" by (elim exE conjE)
  moreover have "Warning \<in> set (stdout st3)" by (simp add: st3_def announce_def)
  ultimately have "Warning \<in> set (stdout st')" by simp
  then have "Warning \<in> set (stdout (snd (create_icns (demo_env 1024 100) demo_input None demo_world)))"
    unfolding demo_loaded st3_def [symmetric] b by simp
  moreover have "fst (create_icns (demo_env 1024 100) demo_input None demo_world) =
     Inr \<lparr>parent = [''assets''], name = ''logo.icns''\<rparr>"
    by (rule demo_run [OF demo_write])
  moreover have "image_open (demo_env 1024 100) ''px'' =
     Inr \<lparr>mode = ''RGB'', size_img = (1024, 100), pixels = ''px''\<rparr>"
    by (simp add: demo_env_def)
  ultimately show ?thesis by simp
qed

text \<open>
  C3, as the code has it. The warning is printed exactly when at least one dimension of
  the source is below 512, right after the two lines that announce the source. It is not
  fatal: the result, the files and the rest of the output are those of the rest of the
  function run on its own (\<open>build_icns\<close>, from the same world with nothing printed),
  which never prints a warning.
\<close>

theorem create_icns_warning:
  assumes "files st input_path = Some content"
    and "output_path_of input_path output_path = Inr out"
    and "image_open E content = Inr img"
    and "size_img (to_rgba E img) = (w, h)"
    and "build_icns E (to_rgba E img) out (st\<lparr>stdout := []\<rparr>) = (r0, st0)"
  shows "fst (create_icns E input_path output_path st) = r0 \<and>
    files (snd (create_icns E input_path output_path st)) = files st0 \<and>
    tmp_dirs (snd (create_icns E input_path output_path st)) = tmp_dirs st0 \<and>
    tmp_files (snd (create_icns E input_path output_path st)) = tmp_files st0 \<and>
    stdout (snd (create_icns E input_path output_path st)) =
      stdout st @ [Loading input_path, SourceSize w h] @
      (if w < 512 \<or> h < 512 then [Warning] else []) @ stdout st0 \<and>
    Warning \<notin> set (stdout st0)"
proof -
  define l where "l = stdout st @ announce input_path (to_rgba E img)"
  have e: "st\<lparr>stdout := l\<rparr> = log_before l (st\<lparr>stdout := []\<rparr>)"
    by (simp add: log_before_def)
  have c: "create_icns E input_path output_path st = (r0, log_before l st0)"
    unfolding create_icns_loaded [OF assms(1,2,3)] l_def [symmetric] e
    by (simp add: build_icns_log_before assms(5))
  have a: "l = stdout st @ [Loading input_path, SourceSize w h] @
      (if w < 512 \<or> h < 512 then [Warning] else [])"
    by (simp add: l_def announce_def assms(4))
  from build_icns_stdout [OF assms(5)] have n: "Warning \<notin> set (stdout st0)" by auto
  show ?thesis using n by (simp add: c a)
qed

theorem create_icns_warning_witness:
  "stdout (snd (create_icns (demo_env 600 100) demo_input None demo_world)) =
     [Loading demo_input, SourceSize 600 100, Warning] @
     stdout (snd (build_icns (demo_env 600 100)
       \<lparr>mode = ''RGBA'', size_img = (600, 100), pixels = ''px''\<rparr>
       \<lparr>parent = [''assets''], name = ''logo.icns''\<rparr> demo_world)) \<and>
   fst (create_icns (demo_env 600 100) demo_input None demo_world) =
     fst (build_icns (demo_env 600 100)
       \<lparr>mode = ''RGBA'', size_img = (600, 100), pixels = ''px''\<rparr>
       \<lparr>parent = [''assets''], name = ''logo.icns''\<rparr> demo_world)"
proof -
  define out where "out = \<lparr>parent = [''assets''], name = ''logo.icns''\<rparr>"
  define img where "img = \<lparr>mode = ''RGB'', size_img = (600::nat, 100::nat), pixels = ''px''\<rparr>"
  define src where "src = \<lparr>mode = ''RGBA'', size_img = (600::nat, 100::nat), pixels = ''px''\<rparr>"
  have f: "files demo_world demo_input = Some ''px''" by (simp add: demo_world_def)
  have o: "output_path_of demo_input None = Inr out"
    by (simp add: output_path_of_def with_suffix_def path_suffix_def demo_input_def out_def)
  have i: "image_open (demo_env 600 100) ''px'' = Inr img" by (simp add: demo_env_def img_def)
  have r: "to_rgba (demo_env 600 100) img = src"
    by (simp add: to_rgba_def demo_env_def img_def src_def)
  have s: "size_img (to_rgba (demo_env 600 100) img) = (600, 100)" by (simp add: r src_def)
  have d: "demo_world\<lparr>stdout := []\<rparr> = demo_world" by (simp add: demo_world_def)
  have b: "build_icns (demo_env 600 100) (to_rgba (demo_env 600 100) img) out (demo_world\<lparr>stdout := []\<rparr>) =
    (fst (build_icns (demo_env 600 100) src out demo_world),
     snd (build_icns (demo_env 600 100) src out demo_world))"
    by (simp add: r d)
  from create_icns_warning [OF f o i s b] show ?thesis
    unfolding src_def out_def by (simp add: demo_world_def)
qed

text \<open>
  C10. When \<open>create_icns\<close> returns, the container is a file at the path it returns.
  With no output path given, that path is \<open>input_path.with_suffix('.icns')\<close>: the same
  parent, the stem of the input name followed by \<open>.icns\<close>, so its suffix is \<open>.icns\<close>.
  With an output path given, it is that path.
\<close>

theorem create_icns_output_path:
  assumes "create_icns E input_path output_path st = (Inr p, st')"
  shows "(output_path = None \<longrightarrow>
      with_suffix input_path ''.icns'' = Inr p \<and> parent p = parent input_path \<and>
      name p = path_stem input_path @ ''.icns'' \<and> path_suffix p = ''.icns'') \<and>
    (\<forall>q. output_path = Some q \<longrightarrow> p = q) \<and>
    (\<exists>icns data. icns_write icns = Inr data \<and> files st' p = Some data)"
proof -
  from create_icns_container [OF assms] obtain icns data where
    o: "output_path_of input_path output_path = Inr p"
    and w: "icns_write icns = Inr data" and f: "files st' = (files st)(p \<mapsto> data)"
    by (elim exE conjE) (rule that)
  have a: "output_path = None \<longrightarrow>
      with_suffix input_path ''.icns'' = Inr p \<and> parent p = parent input_path \<and>
      name p = path_stem input_path @ ''.icns'' \<and> path_suffix p = ''.icns''"
  proof
    assume "output_path = None"
    with o have ws: "with_suffix input_path ''.icns'' = Inr p" by (simp add: output_path_of_def)
    from with_suffix_icns [OF ws] ws show "with_suffix input_path ''.icns'' = Inr p \<and>
      parent p = parent input_path \<and> name p = path_stem input_path @ ''.icns'' \<and>
      path_suffix p = ''.icns''" by simp
  qed
  have b: "\<forall>q. output_path = Some q \<longrightarrow> p = q"
    using o by (auto simp: output_path_of_def)
  have fd: "files st' p = Some data" using f by simp
  have c: "\<exists>icns data. icns_write icns = Inr data \<and> files st' p = Some data"
    by (intro exI conjI) (rule w fd)+
  from a b c show ?thesis by (intro conjI)
qed

theorem create_icns_output_path_witness:
  "name (projr (fst (create_icns (demo_env 16 16) demo_input None demo_world))) = ''logo.icns'' \<and>
   parent (projr (fst (create_icns (demo_env 16 16) demo_input None demo_world))) = [''assets''] \<and>
   path_stem demo_input = ''logo'' \<and> path_suffix demo_input = ''.png''"
proof -
  define st' where "st' = snd (create_icns (demo_env 16 16) demo_input None demo_world)"
  define p where "p = \<lparr>parent = [''assets''], name = ''logo.icns''\<rparr>"
  have fr: "fst (create_icns (demo_env 16 16) demo_input None demo_world) = Inr p"
    unfolding p_def by (rule demo_run [OF demo_write])
  then have run: "create_icns (demo_env 16 16) demo_input None demo_world = (Inr p, st')"
    by (simp add: st'_def prod_eq_iff)
  have sfx: "path_suffix demo_input = ''.png''"
    by (simp add: path_suffix_def demo_input_def)
  have stem: "path_stem demo_input = ''logo''"
    by (simp add: path_stem_def sfx) (simp add: demo_input_def)
  from create_icns_output_path [OF run] have
    np: "name p = path_stem demo_input @ ''.icns''" "parent p = parent demo_input"
    by simp_all
  have a: "name (projr (fst (create_icns (demo_env 16 16) demo_input None demo_world))) = ''logo.icns''"
    unfolding fr using np(1) stem by simp
  have b: "parent (projr (fst (create_icns (demo_env 16 16) demo_input None demo_world))) = [''assets'']"
    unfolding fr using np(2) by (simp add: demo_input_def)
  from a b stem sfx show ?thesis by (intro conjI)
qed

text \<open>
  C9. Every key of \<open>ICON_TYPES\<close> is in \<open>type_info\<close> with the same description, and
  \<open>type_info\<close> has four keys more: \<open>ic11\<close>, \<open>ic12\<close>, \<open>ic13\<close> and \<open>ic14\<close>. The lookup
  gives each of them its description, not \<open>unknown\<close>, and no container written by
  \<open>create_icns\<close> holds any of them.
\<close>

theorem type_info_superset:
  "(\<forall>t \<in> set ICON_TYPES. map_of type_info (fst t) = Some (snd (snd t))) \<and>
   set (map fst ICON_TYPES) \<subset> set (map fst type_info) \<and>
   set (map fst type_info) - set (map fst ICON_TYPES) = {''ic11'', ''ic12'', ''ic13'', ''ic14''} \<and>
   type_info_get ''ic11'' = ''32x32 (16@2x)'' \<and> type_info_get ''ic12'' = ''64x64 (32@2x)'' \<and>
   type_info_get ''ic13'' = ''256x256 (128@2x)'' \<and> type_info_get ''ic14'' = ''512x512 (256@2x)'' \<and>
   (\<forall>E input_path output_path st p st'.
      create_icns E input_path output_path st = (Inr p, st') \<longrightarrow>
      (\<exists>icns data. icns_write icns = Inr data \<and> files st' p = Some data \<and>
         set (map fst icns) \<inter> {''ic11'', ''ic12'', ''ic13'', ''ic14''} = {}))"
proof (intro conjI allI impI)
  show "\<forall>t \<in> set ICON_TYPES. map_of type_info (fst t) = Some (snd (snd t))"
    by (simp add: ICON_TYPES_def type_info_def)
  show "set (map fst ICON_TYPES) \<subset> set (map fst type_info)"
    unfolding ICON_TYPES_keys type_info_keys by (rule keys_psubset)
  show "set (map fst type_info) - set (map fst ICON_TYPES) = {''ic11'', ''ic12'', ''ic13'', ''ic14''}"
    unfolding ICON_TYPES_keys type_info_keys by (rule keys_diff)
  show "type_info_get ''ic11'' = ''32x32 (16@2x)''" by (simp add: type_info_get_def type_info_def)
  show "type_info_get ''ic12'' = ''64x64 (32@2x)''" by (simp add: type_info_get_def type_info_def)
  show "type_info_get ''ic13'' = ''256x256 (128@2x)''" by (simp add: type_info_get_def type_info_def)
  show "type_info_get ''ic14'' = ''512x512 (256@2x)''" by (simp add: type_info_get_def type_info_def)
next
  fix E input_path output_path st p st'
  assume run: "create_icns E input_path output_path st = (Inr p, st')"
  from create_icns_container [OF run] obtain img temp_dir st1 icns sizes_added s1 data
    where a: "add_sizes E (to_rgba E img) temp_dir ICON_TYPES ([], []) st1 = (Inr (icns, sizes_added), s1)"
    and w: "icns_write icns = Inr data" and f: "files st' = (files st)(p \<mapsto> data)"
    by (elim exE conjE) (rule that)
  have k: "map fst icns = map fst (entries_up_to (max_dim (to_rgba E img)))"
    using a by (rule build_media_keys)
  have "set (map fst icns) \<subseteq> set (map fst ICON_TYPES)"
    unfolding k entries_up_to_def by auto
  moreover have "set (map fst ICON_TYPES) \<inter> {''ic11'', ''ic12'', ''ic13'', ''ic14''} = {}"
    unfolding ICON_TYPES_keys by simp
  ultimately have d: "set (map fst icns) \<inter> {''ic11'', ''ic12'', ''ic13'', ''ic14''} = {}"
    by (rule disjoint_mono)
  have fd: "files st' p = Some data" using f by simp
  show "\<exists>icns data. icns_write icns = Inr data \<and> files st' p = Some data \<and>
         set (map fst icns) \<inter> {''ic11'', ''ic12'', ''ic13'', ''ic14''} = {}"
    by (intro exI conjI) (rule w fd d)+
qed

theorem type_info_superset_witness:
  "map_of type_info ''ic10'' = Some ''1024x1024 (512@2x)'' \<and>
   (\<exists>icns data.
      icns_write icns = Inr data \<and>
      files (snd (create_icns (demo_env 1024 1024) demo_input None demo_world))
        \<lparr>parent = [''assets''], name = ''logo.icns''\<rparr> = Some data \<and>
      set (map fst icns) \<inter> {''ic11'', ''ic12'', ''ic13'', ''ic14''} = {})"
proof -
  define st' where "st' = snd (create_icns (demo_env 1024 1024) demo_input None demo_world)"
  define p where "p = \<lparr>parent = [''assets''], name = ''logo.icns''\<rparr>"
  have "fst (create_icns (demo_env 1024 1024) demo_input None demo_world) = Inr p"
    unfolding p_def by (rule demo_run [OF demo_write])
  then have run: "create_icns (demo_env 1024 1024) demo_input None demo_world = (Inr p, st')"
    by (simp add: st'_def prod_eq_iff)
  note t = type_info_superset
  have m: "(''ic10'', 1024, ''1024x1024 (512@2x)'') \<in> set ICON_TYPES" by (simp add: ICON_TYPES_def)
  have a: "map_of type_info ''ic10'' = Some ''1024x1024 (512@2x)''"
    using t [THEN conjunct1, THEN bspec, OF m] by simp
  have b: "\<exists>icns data. icns_write icns = Inr data \<and> files st' p = Some data \<and>
         set (map fst icns) \<inter> {''ic11'', ''ic12'', ''ic13'', ''ic14''} = {}"
    using t [THEN conjunct2, THEN conjunct2, THEN conjunct2, THEN conjunct2, THEN conjunct2,
      THEN conjunct2, THEN conjunct2, THEN spec, THEN spec, THEN spec, THEN spec, THEN spec,
      THEN spec, THEN mp, OF run] .
  from a b show ?thesis unfolding st'_def p_def by (intro conjI)
qed



text \<open>
  C6. A buffer whose header declares a total that the buffer does not exceed, and in
  which, after some well-formed chunks, a chunk declares more payload bytes than remain in
  the buffer, fails with \<open>TruncatedChunk\<close>. In particular a written container whose last
  payload is not empty, cut by one byte (the header declares L, the buffer has L - 1
  bytes), fails with \<open>TruncatedChunk\<close>. And no partial payload is ever returned: when the
  decoder returns chunks, the buffer is exactly their serialisation.
\<close>

theorem decode_truncated:
  "(list_all (\<lambda>c. length (fst c) = 4 \<and> length (snd c) < 4294967296) cs \<and>
    length k = 4 \<and> n < 4294967296 \<and> length rest < n \<and>
    bs = ''icns'' @ be32 declared @ concat (map chunk_bytes cs) @ k @ be32 n @ rest \<and>
    length bs \<le> declared \<and> declared < 4294967296 \<longrightarrow> decode bs = Inl TruncatedChunk) \<and>
   (icns_write m = Inr data \<and> m \<noteq> [] \<and> snd (last m) \<noteq> [] \<longrightarrow>
      be32_val (take 4 (drop 4 (butlast data))) = length data \<and>
      length (butlast data) = length data - 1 \<and>
      decode (butlast data) = Inl TruncatedChunk) \<and>
   (\<forall>out. decode bs = Inr out \<longrightarrow> icns_write out = Inr bs)"
proof (intro conjI impI allI)
  assume "list_all (\<lambda>c. length (fst c) = 4 \<and> length (snd c) < 4294967296) cs \<and>
    length k = 4 \<and> n < 4294967296 \<and> length rest < n \<and>
    bs = ''icns'' @ be32 declared @ concat (map chunk_bytes cs) @ k @ be32 n @ rest \<and>
    length bs \<le> declared \<and> declared < 4294967296"
  then show "decode bs = Inl TruncatedChunk"
    by (elim conjE) (rule decode_truncated_chunk [of cs k n rest bs declared]; assumption)
next
  assume a: "icns_write m = Inr data \<and> m \<noteq> [] \<and> snd (last m) \<noteq> []"
  then have w: "icns_write m = Inr data" and ne: "m \<noteq> []" and p: "snd (last m) \<noteq> []"
    by simp_all
  show "be32_val (take 4 (drop 4 (butlast data))) = length data"
    using w ne p by (rule decode_one_byte_short(1))
  show "length (butlast data) = length data - 1"
    using w ne p by (rule decode_one_byte_short(2))
  show "decode (butlast data) = Inl TruncatedChunk"
    using w ne p by (rule decode_one_byte_short(3))
next
  fix out assume "decode bs = Inr out"
  then show "icns_write out = Inr bs" by (rule decode_exact)
qed

theorem decode_truncated_witness:
  "decode (''icns'' @ be32 35 @ ''icp4'' @ be32 2 @ ''px'' @ ''icp5'' @ be32 9 @ ''short'') =
     Inl TruncatedChunk \<and>
   icns_write [(''icp4'', ''px'')] = Inr (''icns'' @ be32 18 @ ''icp4'' @ be32 2 @ ''px'') \<and>
   decode (''icns'' @ be32 18 @ ''icp4'' @ be32 2 @ ''p'') = Inl TruncatedChunk"
proof -
  define bs where "bs = ''icns'' @ be32 35 @ ''icp4'' @ be32 2 @ ''px'' @ ''icp5'' @ be32 9 @ ''short''"
  have l: "length bs = 31" by (simp add: bs_def)
  have c: "chunk_bytes (''icp4'', ''px'') = ''icp4'' @ be32 2 @ ''px''"
    by (simp add: chunk_bytes_def be32_def)
  have h: "list_all (\<lambda>c. length (fst c) = 4 \<and> length (snd c) < 4294967296) [(''icp4'', ''px'')] \<and>
    length ''icp5'' = 4 \<and> (9::nat) < 4294967296 \<and> length ''short'' < 9 \<and>
    bs = ''icns'' @ be32 35 @ concat (map chunk_bytes [(''icp4'', ''px'')]) @ ''icp5'' @ be32 9 @ ''short'' \<and>
    length bs \<le> 35 \<and> (35::nat) < 4294967296"
    unfolding l by (simp add: c) (simp add: bs_def)
  have t: "decode bs = Inl TruncatedChunk"
    using decode_truncated [of "[(''icp4'', ''px'')]" "''icp5''" 9 "''short''" bs 35,
      THEN conjunct1, THEN mp, OF h] .
  define data where "data = ''icns'' @ be32 18 @ ''icp4'' @ be32 2 @ ''px''"
  have w: "icns_write [(''icp4'', ''px'')] = Inr data"
    by (simp add: icns_write_def chunk_bytes_def be32_def data_def)
  have h': "icns_write [(''icp4'', ''px'')] = Inr data \<and> [(''icp4'', ''px'')] \<noteq> [] \<and>
    snd (last [(''icp4'', ''px'')]) \<noteq> []"
    using w by simp
  have "decode (butlast data) = Inl TruncatedChunk"
    using decode_truncated [where m = "[(''icp4'', ''px'')]" and data = data,
      THEN conjunct2, THEN conjunct1, THEN mp, OF h'] by (elim conjE)
  moreover have "butlast data = ''icns'' @ be32 18 @ ''icp4'' @ be32 2 @ ''p''"
    by (simp add: data_def butlast_append)
  ultimately have u: "decode (''icns'' @ be32 18 @ ''icp4'' @ be32 2 @ ''p'') = Inl TruncatedChunk"
    by simp
  from t w u show ?thesis unfolding bs_def data_def by (intro conjI)
qed

end
